theory Spec2Isabelle
  imports Main "HOL-Library.Char_ord" "HOL-Library.List_Lexorder"
    "HOL-Library.Product_Lexorder" "HOL-Library.Multiset"
begin

section \<open>Data model of the route designer\<close>

text \<open>
  The frozen dataclass \<^verbatim>\<open>Reaction\<close> of \<^verbatim>\<open>organic_route_designer.py\<close>. Its equality
  and hash are structural, as the equality of a record is. A Python \<^verbatim>\<open>str\<close> is modelled
  by \<^typ>\<open>string\<close>, read as the UTF-8 bytes of the text: equality and the lexicographic
  order of the byte sequences are those of the code points.
\<close>

record Reaction =
  reactants :: "string list"
  product :: string
  condition :: string
  reaction_type :: string

text \<open>
  The attributes of \<^verbatim>\<open>OrganicRouteDesigner\<close>. The three dictionaries are association
  lists in insertion order, the order in which Python iterates a \<^verbatim>\<open>dict\<close>.
\<close>

record OrganicRouteDesigner =
  name_to_id :: "(string \<times> string) list"
  id_to_name :: "(string \<times> string) list"
  reactions :: "Reaction list"
  product_to_reactions :: "(string \<times> Reaction list) list"
  starting_materials :: "string set"

text \<open>The cost \<^verbatim>\<open>10**9\<close> that the search uses for "unreachable".\<close>

definition UNREACHABLE :: int where
  "UNREACHABLE = 10 ^ 9"

text \<open>\<^verbatim>\<open>self.product_to_reactions.get(target, [])\<close>\<close>

definition rules_producing :: "OrganicRouteDesigner \<Rightarrow> string \<Rightarrow> Reaction list" where
  "rules_producing d target =
     (case map_of (product_to_reactions d) target of None \<Rightarrow> [] | Some rs \<Rightarrow> rs)"

text \<open>\<^verbatim>\<open>compound_id\<close>: \<^verbatim>\<open>self.name_to_id.get(name)\<close>\<close>

definition compound_id :: "OrganicRouteDesigner \<Rightarrow> string \<Rightarrow> string option" where
  "compound_id d name = map_of (name_to_id d) name"

section \<open>The minimum-cost search\<close>

text \<open>
  The inner loop of \<^verbatim>\<open>_best_cost\<close> over \<^verbatim>\<open>rxn.reactants\<close>, with the cost of a reactant
  as a parameter. \<open>None\<close> is \<^verbatim>\<open>feasible = False\<close> (the \<^verbatim>\<open>break\<close>), \<open>Some tot\<close> is the
  value of \<^verbatim>\<open>total\<close> after a loop that ran to its end.
\<close>

fun reactants_loop :: "(string \<Rightarrow> int) \<Rightarrow> string list \<Rightarrow> int \<Rightarrow> int option" where
  "reactants_loop cost [] tot = Some tot"
| "reactants_loop cost (reactant # rest) tot =
     (let c = cost reactant in
      if c \<ge> UNREACHABLE then None else reactants_loop cost rest (tot + c))"

text \<open>
  The outer loop over the rules producing the target: \<open>best\<close> is replaced when the rule
  is feasible and \<^verbatim>\<open>total < best[0]\<close>.
\<close>

fun rules_loop :: "(Reaction \<Rightarrow> int option) \<Rightarrow> Reaction list
    \<Rightarrow> int \<times> Reaction option \<Rightarrow> int \<times> Reaction option" where
  "rules_loop rule_total [] best = best"
| "rules_loop rule_total (rxn # rest) best =
     rules_loop rule_total rest
       (case rule_total rxn of
          None \<Rightarrow> best
        | Some tot \<Rightarrow> if tot < fst best then (tot, Some rxn) else best)"

lemma reactants_loop_cong [fundef_cong]:
  "rs = rs' \<Longrightarrow> tot = tot' \<Longrightarrow> (\<And>r. r \<in> set rs' \<Longrightarrow> f r = g r)
   \<Longrightarrow> reactants_loop f rs tot = reactants_loop g rs' tot'"
  by (induction rs' arbitrary: rs tot tot') (auto simp: Let_def)

lemma rules_loop_cong [fundef_cong]:
  "rs = rs' \<Longrightarrow> best = best' \<Longrightarrow> (\<And>r. r \<in> set rs' \<Longrightarrow> f r = g r)
   \<Longrightarrow> rules_loop f rs best = rules_loop g rs' best'"
  by (induction rs' arbitrary: rs best best') auto

lemma rules_producing_key:
  assumes "rxn \<in> set (rules_producing d target)"
  shows "target \<in> fst ` set (product_to_reactions d)"
proof (cases "map_of (product_to_reactions d) target")
  case None
  with assms show ?thesis by (simp add: rules_producing_def)
next
  case (Some rs)
  then have "(target, rs) \<in> set (product_to_reactions d)" by (rule map_of_SomeD)
  then show ?thesis by force
qed

lemma card_keys_less:
  assumes "target \<in> fst ` set idx" "target \<notin> set stack"
  shows "card (fst ` set idx - set (stack @ [target])) < card (fst ` set idx - set stack)"
proof -
  have "fst ` set idx - set (stack @ [target]) \<subset> fst ` set idx - set stack"
    using assms by auto
  then show ?thesis by (intro psubset_card_mono) simp_all
qed

text \<open>
  \<^verbatim>\<open>_best_cost(target, stack)\<close>. The \<^verbatim>\<open>lru_cache\<close> stores results of a function of
  \<open>(target, stack)\<close> on a designer that is not changed after \<^verbatim>\<open>__init__\<close>, so the cached
  function is the function itself.
\<close>

function best_cost :: "OrganicRouteDesigner \<Rightarrow> string \<Rightarrow> string list \<Rightarrow> int \<times> Reaction option" where
  "best_cost d target stack =
     (if target \<in> starting_materials d then (0, None)
      else if target \<in> set stack then (UNREACHABLE, None)
      else rules_loop
             (\<lambda>rxn. reactants_loop (\<lambda>reactant. fst (best_cost d reactant (stack @ [target])))
                      (reactants rxn) 1)
             (rules_producing d target) (UNREACHABLE, None))"
  by pat_completeness auto
termination
  by (relation "measure (\<lambda>(d, target, stack). card (fst ` set (product_to_reactions d) - set stack))")
     (auto simp del: set_append dest!: rules_producing_key intro!: card_keys_less)

declare best_cost.simps [simp del]


lemma rules_loop_choice:
  "snd (rules_loop f rs best) = Some rxn \<Longrightarrow> snd best = Some rxn \<or> rxn \<in> set rs"
proof (induction rs arbitrary: best)
  case Nil
  then show ?case by simp
next
  case (Cons r rs)
  let ?b = "case f r of None \<Rightarrow> best
    | Some tot \<Rightarrow> if tot < fst best then (tot, Some r) else best"
  from Cons.prems have "snd (rules_loop f rs ?b) = Some rxn" by simp
  then have "snd ?b = Some rxn \<or> rxn \<in> set rs" by (rule Cons.IH)
  then show ?case by (auto split: option.splits if_splits)
qed

lemma best_cost_Some:
  assumes "snd (best_cost d target stack) = Some rxn"
  shows "target \<notin> starting_materials d \<and> target \<notin> set stack
    \<and> rxn \<in> set (rules_producing d target)"
  using assms rules_loop_choice [of _ "rules_producing d target" "(UNREACHABLE, None)" rxn]
  by (subst (asm) best_cost.simps) (auto split: if_splits)

section \<open>Extraction of the steps\<close>

text \<open>
  The loop of \<^verbatim>\<open>_collect_steps\<close> over \<^verbatim>\<open>rxn.reactants\<close>: it returns \<open>False\<close> at the first
  reactant whose collection fails. The state is the pair of the arguments \<^verbatim>\<open>seen\<close> and
  \<^verbatim>\<open>ordered\<close>, which the source mutates in place.
\<close>

fun collect_loop :: "(string \<Rightarrow> 's \<Rightarrow> bool \<times> 's) \<Rightarrow> string list \<Rightarrow> 's \<Rightarrow> bool \<times> 's" where
  "collect_loop collect [] st = (True, st)"
| "collect_loop collect (r # rest) st =
     (case collect r st of (ok, st') \<Rightarrow>
        if \<not> ok then (False, st') else collect_loop collect rest st')"

lemma collect_loop_cong [fundef_cong]:
  "rs = rs' \<Longrightarrow> st = st' \<Longrightarrow> (\<And>r s. r \<in> set rs' \<Longrightarrow> f r s = g r s)
   \<Longrightarrow> collect_loop f rs st = collect_loop g rs' st'"
  by (induction rs' arbitrary: rs st st') (auto split: prod.splits)

function collect_steps :: "OrganicRouteDesigner \<Rightarrow> string \<Rightarrow> Reaction set \<times> Reaction list
    \<Rightarrow> string list \<Rightarrow> bool \<times> Reaction set \<times> Reaction list" where
  "collect_steps d target st stack =
     (if target \<in> starting_materials d then (True, st)
      else case snd (best_cost d target stack) of
        None \<Rightarrow> (False, st)
      | Some rxn \<Rightarrow>
          (case collect_loop (\<lambda>r s. collect_steps d r s (stack @ [target])) (reactants rxn) st of
             (ok, seen, ordered) \<Rightarrow>
               if \<not> ok then (False, seen, ordered)
               else if rxn \<notin> seen then (True, insert rxn seen, ordered @ [rxn])
               else (True, seen, ordered)))"
  by pat_completeness auto
termination
  by (relation "measure (\<lambda>(d, target, st, stack).
        card (fst ` set (product_to_reactions d) - set stack))")
     (auto simp del: set_append dest!: best_cost_Some rules_producing_key intro!: card_keys_less)

declare collect_steps.simps [simp del]

text \<open>\<^verbatim>\<open>design_route\<close>: \<open>None\<close> is Python's \<^verbatim>\<open>None\<close>.\<close>

definition design_route :: "OrganicRouteDesigner \<Rightarrow> string \<Rightarrow> Reaction list option" where
  "design_route d target_name =
     (case compound_id d target_name of
        None \<Rightarrow> None
      | Some cid \<Rightarrow>
          if fst (best_cost d cid []) \<ge> UNREACHABLE then Some []
          else (case collect_steps d cid ({}, []) [] of
                  (ok, seen, steps) \<Rightarrow> Some (if ok then steps else [])))"

section \<open>Ranking\<close>

text \<open>The loop of \<^verbatim>\<open>demo_targets\<close> over \<^verbatim>\<open>self.id_to_name.items()\<close>.\<close>

fun candidates_loop :: "OrganicRouteDesigner \<Rightarrow> (string \<times> string) list
    \<Rightarrow> (int \<times> string) list \<Rightarrow> (int \<times> string) list" where
  "candidates_loop d [] candidates = candidates"
| "candidates_loop d ((cid, name) # items) candidates =
     (if cid \<in> starting_materials d then candidates_loop d items candidates
      else let cost = fst (best_cost d cid []) in
        if cost < UNREACHABLE then candidates_loop d items (candidates @ [(cost, name)])
        else candidates_loop d items candidates)"

text \<open>
  The slice \<^verbatim>\<open>xs[:count]\<close>: for a negative \<^verbatim>\<open>count\<close> Python drops the last \<^verbatim>\<open>-count\<close>
  elements.
\<close>

definition slice_to :: "int \<Rightarrow> 'a list \<Rightarrow> 'a list" where
  "slice_to cnt xs =
     (if 0 \<le> cnt then take (nat cnt) xs else take (length xs - nat (- cnt)) xs)"

text \<open>
  \<^verbatim>\<open>demo_targets\<close>. \<^verbatim>\<open>list.sort\<close> is stable, as \<^const>\<open>sort_key\<close> is; the key is the pair
  \<^verbatim>\<open>(x[0], x[1])\<close>, compared lexicographically.
\<close>

definition demo_targets :: "OrganicRouteDesigner \<Rightarrow> int \<Rightarrow> string list" where
  "demo_targets d cnt =
     map snd (slice_to cnt
       (sort_key (\<lambda>x. (fst x, snd x)) (candidates_loop d (id_to_name d) [])))"

section \<open>Construction of the knowledge base\<close>

text \<open>The assignment \<^verbatim>\<open>dict[k] = v\<close> on a dictionary kept in insertion order.\<close>

fun dict_set :: "'k \<Rightarrow> 'v \<Rightarrow> ('k \<times> 'v) list \<Rightarrow> ('k \<times> 'v) list" where
  "dict_set k v [] = [(k, v)]"
| "dict_set k v ((k', v') # kvs) =
     (if k' = k then (k, v) # kvs else (k', v') # dict_set k v kvs)"

text \<open>The designer before \<^verbatim>\<open>_build_compounds\<close>, with the starting materials it will get.\<close>

definition empty_designer :: "string set \<Rightarrow> OrganicRouteDesigner" where
  "empty_designer sm =
     \<lparr>name_to_id = [], id_to_name = [], reactions = [], product_to_reactions = [],
      starting_materials = sm\<rparr>"

definition add_compound :: "string \<Rightarrow> string \<Rightarrow> OrganicRouteDesigner \<Rightarrow> OrganicRouteDesigner" where
  "add_compound cid name d =
     d\<lparr>id_to_name := dict_set cid name (id_to_name d),
       name_to_id := dict_set name cid (name_to_id d)\<rparr>"

text \<open>
  \<^verbatim>\<open>_add_reaction\<close>: \<^verbatim>\<open>setdefault(product, []).append(rxn)\<close> appends to the list stored
  under the product, creating it when the key is new.
\<close>

definition add_reaction :: "string list \<Rightarrow> string \<Rightarrow> string \<Rightarrow> string
    \<Rightarrow> OrganicRouteDesigner \<Rightarrow> OrganicRouteDesigner" where
  "add_reaction rs p c t d =
     (let rxn = \<lparr>reactants = rs, product = p, condition = c, reaction_type = t\<rparr> in
      d\<lparr>reactions := reactions d @ [rxn],
        product_to_reactions :=
          dict_set p (rules_producing d p @ [rxn]) (product_to_reactions d)\<rparr>)"

text \<open>
  The invariant that \<^verbatim>\<open>_add_reaction\<close> keeps: the index lists, under each compound, the
  registered reactions with that product, in registration order.
\<close>

definition index_ok :: "OrganicRouteDesigner \<Rightarrow> bool" where
  "index_ok d \<longleftrightarrow>
     (\<forall>target. rules_producing d target = filter (\<lambda>r. product r = target) (reactions d))"

lemma map_of_dict_set: "map_of (dict_set k v kvs) = (map_of kvs)(k \<mapsto> v)"
  by (induction kvs) auto

lemma index_ok_empty: "index_ok (empty_designer sm)"
  by (simp add: index_ok_def empty_designer_def rules_producing_def)

lemma index_ok_add_reaction:
  assumes "index_ok d"
  shows "index_ok (add_reaction rs p c t d)"
  using assms
  by (auto simp: index_ok_def add_reaction_def Let_def rules_producing_def map_of_dict_set)

lemma index_ok_add_compound: "index_ok (add_compound cid name d) = index_ok d"
  by (simp add: index_ok_def add_compound_def rules_producing_def)

lemma index_ok_product:
  "index_ok d \<Longrightarrow> rxn \<in> set (rules_producing d target) \<Longrightarrow> product rxn = target"
  by (simp add: index_ok_def)

section \<open>The knowledge base of the source\<close>

text \<open>
  The string literals of the source that are not ASCII are given by their UTF-8 bytes.
  The table \<^verbatim>\<open>PREFIX\<close> maps the number of carbon atoms, 1 to 10, to the Chinese prefix
  of the name (the ten heavenly stems).
\<close>

definition PREFIX :: "(nat \<times> string) list" where
  "PREFIX =
     [(1, [CHR 0xE7, CHR 0x94, CHR 0xB2]),
      (2, [CHR 0xE4, CHR 0xB9, CHR 0x99]),
      (3, [CHR 0xE4, CHR 0xB8, CHR 0x99]),
      (4, [CHR 0xE4, CHR 0xB8, CHR 0x81]),
      (5, [CHR 0xE6, CHR 0x88, CHR 0x8A]),
      (6, [CHR 0xE5, CHR 0xB7, CHR 0xB1]),
      (7, [CHR 0xE5, CHR 0xBA, CHR 0x9A]),
      (8, [CHR 0xE8, CHR 0xBE, CHR 0x9B]),
      (9, [CHR 0xE5, CHR 0xA3, CHR 0xAC]),
      (10, [CHR 0xE7, CHR 0x99, CHR 0xB8])]"

text \<open>
  \<^verbatim>\<open>PREFIX[n]\<close>. The source reads the table at 1 to 10 only; a missing key, where Python
  raises \<^verbatim>\<open>KeyError\<close>, is \<open>None\<close>.
\<close>

definition prefix_of :: "nat \<Rightarrow> string option" where
  "prefix_of n = map_of PREFIX n"

text \<open>The suffixes of the names: alkane, chloro-, alcohol, aldehyde, acid, alkene, ester.\<close>

definition name_alkane :: string where
  "name_alkane =
     [CHR 0xE7, CHR 0x83, CHR 0xB7]"

definition name_chloro :: string where
  "name_chloro =
     [CHR 0xE6, CHR 0xB0, CHR 0xAF]"

definition name_alcohol :: string where
  "name_alcohol =
     [CHR 0xE9, CHR 0x86, CHR 0x87]"

definition name_aldehyde :: string where
  "name_aldehyde =
     [CHR 0xE9, CHR 0x86, CHR 0x9B]"

definition name_acid :: string where
  "name_acid =
     [CHR 0xE9, CHR 0x85, CHR 0xB8]"

definition name_alkene :: string where
  "name_alkene =
     [CHR 0xE7, CHR 0x83, CHR 0xAF]"

definition name_ester :: string where
  "name_ester =
     [CHR 0xE9, CHR 0x85, CHR 0xAF]"

text \<open>The names of the aromatic compounds.\<close>

definition name_benzene :: string where
  "name_benzene =
     [CHR 0xE8, CHR 0x8B, CHR 0xAF]"

definition name_chlorobenzene :: string where
  "name_chlorobenzene =
     [CHR 0xE6, CHR 0xB0, CHR 0xAF, CHR 0xE8, CHR 0x8B, CHR 0xAF]"

definition name_bromobenzene :: string where
  "name_bromobenzene =
     [CHR 0xE6, CHR 0xBA, CHR 0xB4, CHR 0xE8, CHR 0x8B, CHR 0xAF]"

definition name_nitrobenzene :: string where
  "name_nitrobenzene =
     [CHR 0xE7, CHR 0xA1, CHR 0x9D, CHR 0xE5, CHR 0x9F, CHR 0xBA, CHR 0xE8, CHR 0x8B,
       CHR 0xAF]"

definition name_aniline :: string where
  "name_aniline =
     [CHR 0xE8, CHR 0x8B, CHR 0xAF, CHR 0xE8, CHR 0x83, CHR 0xBA]"

definition name_phenol :: string where
  "name_phenol =
     [CHR 0xE8, CHR 0x8B, CHR 0xAF, CHR 0xE9, CHR 0x85, CHR 0x9A]"

text \<open>The conditions of the reactions, in the order of \<^verbatim>\<open>_build_reactions\<close>.\<close>

definition cond_chlorination :: string where
  "cond_chlorination =
     ''Cl'' @ [CHR 0xE2, CHR 0x82, CHR 0x82] @ ''/'' @ [CHR 0xE5, CHR 0x85, CHR 0x89,
       CHR 0xE7, CHR 0x85, CHR 0xA7, CHR 0xEF, CHR 0xBC, CHR 0x88, CHR 0xE5, CHR 0x8F,
       CHR 0x96, CHR 0xE4, CHR 0xBB, CHR 0xA3, CHR 0xEF, CHR 0xBC, CHR 0x89]"

definition cond_hydrolysis :: string where
  "cond_hydrolysis =
     ''NaOH('' @ [CHR 0xE6, CHR 0xB0, CHR 0xB4] @ ''), '' @ [CHR 0xE5, CHR 0x8A, CHR 0xA0,
       CHR 0xE7, CHR 0x83, CHR 0xAD, CHR 0xEF, CHR 0xBC, CHR 0x88, CHR 0xE5, CHR 0x8F,
       CHR 0x96, CHR 0xE4, CHR 0xBB, CHR 0xA3, CHR 0xEF, CHR 0xBC, CHR 0x89]"

definition cond_hcl :: string where
  "cond_hcl =
     ''HCl/ZnCl'' @ [CHR 0xE2, CHR 0x82, CHR 0x82] @ '' '' @ [CHR 0xE6, CHR 0x88,
       CHR 0x96] @ '' SOCl'' @ [CHR 0xE2, CHR 0x82, CHR 0x82]"

definition cond_elimination :: string where
  "cond_elimination =
     ''NaOH('' @ [CHR 0xE9, CHR 0x86, CHR 0x87] @ ''), '' @ [CHR 0xE5, CHR 0x8A, CHR 0xA0,
       CHR 0xE7, CHR 0x83, CHR 0xAD, CHR 0xEF, CHR 0xBC, CHR 0x88, CHR 0xE6, CHR 0xB6,
       CHR 0x88, CHR 0xE5, CHR 0x8E, CHR 0xBB, CHR 0xEF, CHR 0xBC, CHR 0x89]"

definition cond_hydration :: string where
  "cond_hydration =
     ''H'' @ [CHR 0xE2, CHR 0x82, CHR 0x82] @ ''O/H'' @ [CHR 0xE2, CHR 0x81, CHR 0xBA,
       CHR 0xEF, CHR 0xBC, CHR 0x88, CHR 0xE5, CHR 0x8A, CHR 0xA0, CHR 0xE6, CHR 0x88,
       CHR 0x90, CHR 0xEF, CHR 0xBC, CHR 0x89]"

definition cond_dehydration :: string where
  "cond_dehydration =
     [CHR 0xE6, CHR 0xB5, CHR 0x93] @ ''H'' @ [CHR 0xE2, CHR 0x82, CHR 0x82] @ ''SO'' @
       [CHR 0xE2, CHR 0x82, CHR 0x84] @ '', 170'' @ [CHR 0xE2, CHR 0x84, CHR 0x83,
       CHR 0xEF, CHR 0xBC, CHR 0x88, CHR 0xE6, CHR 0xB6, CHR 0x88, CHR 0xE5, CHR 0x8E,
       CHR 0xBB, CHR 0xEF, CHR 0xBC, CHR 0x89]"

definition cond_oxidation_cu :: string where
  "cond_oxidation_cu =
     ''Cu/'' @ [CHR 0xE5, CHR 0x8A, CHR 0xA0, CHR 0xE7, CHR 0x83, CHR 0xAD] @ '' '' @
       [CHR 0xE6, CHR 0x88, CHR 0x96] @ '' '' @ [CHR 0xE5, CHR 0x82, CHR 0xAC, CHR 0xE5,
       CHR 0x8C, CHR 0x96, CHR 0xE6, CHR 0xB0, CHR 0xA7, CHR 0xE5, CHR 0x8C, CHR 0x96]"

definition cond_oxidation_kmno4 :: string where
  "cond_oxidation_kmno4 =
     [CHR 0xE9, CHR 0x85, CHR 0xB8, CHR 0xE6, CHR 0x80, CHR 0xA7] @ ''KMnO'' @ [CHR 0xE2,
       CHR 0x82, CHR 0x84] @ '' '' @ [CHR 0xE6, CHR 0x88, CHR 0x96] @ '' [O]''"

definition cond_esterification :: string where
  "cond_esterification =
     [CHR 0xE6, CHR 0xB5, CHR 0x93] @ ''H'' @ [CHR 0xE2, CHR 0x82, CHR 0x82] @ ''SO'' @
       [CHR 0xE2, CHR 0x82, CHR 0x84] @ '', '' @ [CHR 0xE5, CHR 0x8A, CHR 0xA0, CHR 0xE7,
       CHR 0x83, CHR 0xAD, CHR 0xEF, CHR 0xBC, CHR 0x88, CHR 0xE9, CHR 0x85, CHR 0xAF,
       CHR 0xE5, CHR 0x8C, CHR 0x96, CHR 0xEF, CHR 0xBC, CHR 0x89]"

definition cond_ring_chlorination :: string where
  "cond_ring_chlorination =
     ''Cl'' @ [CHR 0xE2, CHR 0x82, CHR 0x82] @ ''/FeCl'' @ [CHR 0xE2, CHR 0x82, CHR 0x83,
       CHR 0xEF, CHR 0xBC, CHR 0x88, CHR 0xE8, CHR 0x8B, CHR 0xAF, CHR 0xE7, CHR 0x8E,
       CHR 0xAF, CHR 0xE5, CHR 0x8F, CHR 0x96, CHR 0xE4, CHR 0xBB, CHR 0xA3, CHR 0xEF,
       CHR 0xBC, CHR 0x89]"

definition cond_ring_bromination :: string where
  "cond_ring_bromination =
     ''Br'' @ [CHR 0xE2, CHR 0x82, CHR 0x82] @ ''/FeBr'' @ [CHR 0xE2, CHR 0x82, CHR 0x83,
       CHR 0xEF, CHR 0xBC, CHR 0x88, CHR 0xE8, CHR 0x8B, CHR 0xAF, CHR 0xE7, CHR 0x8E,
       CHR 0xAF, CHR 0xE5, CHR 0x8F, CHR 0x96, CHR 0xE4, CHR 0xBB, CHR 0xA3, CHR 0xEF,
       CHR 0xBC, CHR 0x89]"

definition cond_nitration :: string where
  "cond_nitration =
     [CHR 0xE6, CHR 0xB5, CHR 0x93] @ ''HNO'' @ [CHR 0xE2, CHR 0x82, CHR 0x83] @ ''+'' @
       [CHR 0xE6, CHR 0xB5, CHR 0x93] @ ''H'' @ [CHR 0xE2, CHR 0x82, CHR 0x82] @ ''SO'' @
       [CHR 0xE2, CHR 0x82, CHR 0x84] @ '', 55'' @ [CHR 0xE2, CHR 0x84, CHR 0x83]"

definition cond_reduction :: string where
  "cond_reduction =
     ''Fe/HCl '' @ [CHR 0xE8, CHR 0xBF, CHR 0x98, CHR 0xE5, CHR 0x8E, CHR 0x9F]"

definition cond_phenol :: string where
  "cond_phenol =
     ''NaOH('' @ [CHR 0xE9, CHR 0xAB, CHR 0x98, CHR 0xE6, CHR 0xB8, CHR 0xA9, CHR 0xE9,
       CHR 0xAB, CHR 0x98, CHR 0xE5, CHR 0x8E, CHR 0x8B] @ ''), '' @ [CHR 0xE5, CHR 0x90,
       CHR 0x8E, CHR 0xE9, CHR 0x85, CHR 0xB8, CHR 0xE5, CHR 0x8C, CHR 0x96]"

text \<open>The reaction types: substitution, elimination, addition, oxidation, esterification,
  nitration, reduction, hydrolysis.\<close>

definition type_substitution :: string where
  "type_substitution =
     [CHR 0xE5, CHR 0x8F, CHR 0x96, CHR 0xE4, CHR 0xBB, CHR 0xA3, CHR 0xE5, CHR 0x8F,
       CHR 0x8D, CHR 0xE5, CHR 0xBA, CHR 0x94]"

definition type_elimination :: string where
  "type_elimination =
     [CHR 0xE6, CHR 0xB6, CHR 0x88, CHR 0xE5, CHR 0x8E, CHR 0xBB, CHR 0xE5, CHR 0x8F,
       CHR 0x8D, CHR 0xE5, CHR 0xBA, CHR 0x94]"

definition type_addition :: string where
  "type_addition =
     [CHR 0xE5, CHR 0x8A, CHR 0xA0, CHR 0xE6, CHR 0x88, CHR 0x90, CHR 0xE5, CHR 0x8F,
       CHR 0x8D, CHR 0xE5, CHR 0xBA, CHR 0x94]"

definition type_oxidation :: string where
  "type_oxidation =
     [CHR 0xE6, CHR 0xB0, CHR 0xA7, CHR 0xE5, CHR 0x8C, CHR 0x96, CHR 0xE5, CHR 0x8F,
       CHR 0x8D, CHR 0xE5, CHR 0xBA, CHR 0x94]"

definition type_esterification :: string where
  "type_esterification =
     [CHR 0xE9, CHR 0x85, CHR 0xAF, CHR 0xE5, CHR 0x8C, CHR 0x96, CHR 0xE5, CHR 0x8F,
       CHR 0x8D, CHR 0xE5, CHR 0xBA, CHR 0x94]"

definition type_nitration :: string where
  "type_nitration =
     [CHR 0xE7, CHR 0xA1, CHR 0x9D, CHR 0xE5, CHR 0x8C, CHR 0x96, CHR 0xE5, CHR 0x8F,
       CHR 0x8D, CHR 0xE5, CHR 0xBA, CHR 0x94]"

definition type_reduction :: string where
  "type_reduction =
     [CHR 0xE8, CHR 0xBF, CHR 0x98, CHR 0xE5, CHR 0x8E, CHR 0x9F, CHR 0xE5, CHR 0x8F,
       CHR 0x8D, CHR 0xE5, CHR 0xBA, CHR 0x94]"

definition type_hydrolysis :: string where
  "type_hydrolysis =
     [CHR 0xE6, CHR 0xB0, CHR 0xB4, CHR 0xE8, CHR 0xA7, CHR 0xA3, CHR 0xE5, CHR 0x8F,
       CHR 0x8D, CHR 0xE5, CHR 0xBA, CHR 0x94]"

text \<open>The field \<^verbatim>\<open>{n}\<close> of an f-string: the decimal digits of \<open>n\<close>.\<close>

fun fmt_nat :: "nat \<Rightarrow> string" where
  "fmt_nat n = (if n < 10 then [''0123456789'' ! n]
     else fmt_nat (n div 10) @ [''0123456789'' ! (n mod 10)])"

declare fmt_nat.simps [simp del]

text \<open>
  \<^verbatim>\<open>PREFIX[n]\<close> where the key is present. \<^verbatim>\<open>_build_compounds\<close> reads the table at the
  numbers of \<^verbatim>\<open>range(1, 11)\<close> only, which are its keys (\<open>PREFIX_keys\<close> below), so the
  \<^verbatim>\<open>KeyError\<close> of a missing key does not occur.
\<close>

definition PREFIX_at :: "nat \<Rightarrow> string" where
  "PREFIX_at n = the (prefix_of n)"

text \<open>The body of the first loop of \<^verbatim>\<open>_build_compounds\<close>.\<close>

definition carbon_compounds :: "nat \<Rightarrow> OrganicRouteDesigner \<Rightarrow> OrganicRouteDesigner" where
  "carbon_compounds n d =
     (let p = PREFIX_at n;
          d1 = add_compound (''alkane:C'' @ fmt_nat n) (p @ name_alkane) d;
          d2 = add_compound (''haloalkane:C'' @ fmt_nat n) (name_chloro @ p @ name_alkane) d1;
          d3 = add_compound (''alcohol:C'' @ fmt_nat n) (p @ name_alcohol) d2;
          d4 = add_compound (''aldehyde:C'' @ fmt_nat n) (p @ name_aldehyde) d3;
          d5 = add_compound (''acid:C'' @ fmt_nat n) (p @ name_acid) d4
      in if n \<ge> 2 then add_compound (''alkene:C'' @ fmt_nat n) (p @ name_alkene) d5 else d5)"

text \<open>The body of the loops over \<open>a\<close> and \<open>b\<close>.\<close>

definition ester_compound :: "nat \<Rightarrow> nat \<Rightarrow> OrganicRouteDesigner \<Rightarrow> OrganicRouteDesigner" where
  "ester_compound a b d =
     add_compound (''ester:C'' @ fmt_nat a @ '':C'' @ fmt_nat b)
       (PREFIX_at a @ name_acid @ PREFIX_at b @ name_ester) d"

definition aromatic :: "(string \<times> string) list" where
  "aromatic =
     [(''benzene'', name_benzene), (''chlorobenzene'', name_chlorobenzene),
      (''bromobenzene'', name_bromobenzene), (''nitrobenzene'', name_nitrobenzene),
      (''aniline'', name_aniline), (''phenol'', name_phenol)]"

definition build_compounds :: "OrganicRouteDesigner \<Rightarrow> OrganicRouteDesigner" where
  "build_compounds d =
     fold (\<lambda>(cid, name). add_compound cid name) aromatic
       (fold (\<lambda>a. fold (\<lambda>b. ester_compound a b) [1..<11]) [1..<11]
          (fold carbon_compounds [1..<11] d))"

text \<open>The body of the first loop of \<^verbatim>\<open>_build_reactions\<close>.\<close>

definition carbon_reactions :: "nat \<Rightarrow> OrganicRouteDesigner \<Rightarrow> OrganicRouteDesigner" where
  "carbon_reactions n d =
     (let alkane = ''alkane:C'' @ fmt_nat n;
          halo = ''haloalkane:C'' @ fmt_nat n;
          alcohol = ''alcohol:C'' @ fmt_nat n;
          aldehyde = ''aldehyde:C'' @ fmt_nat n;
          acid = ''acid:C'' @ fmt_nat n;
          d1 = add_reaction [alkane] halo cond_chlorination type_substitution d;
          d2 = add_reaction [halo] alcohol cond_hydrolysis type_substitution d1;
          d3 = add_reaction [alcohol] halo cond_hcl type_substitution d2;
          d4 = (if n \<ge> 2 then
                  (let alkene = ''alkene:C'' @ fmt_nat n;
                       e1 = add_reaction [halo] alkene cond_elimination type_elimination d3;
                       e2 = add_reaction [alkene] alcohol cond_hydration type_addition e1
                   in add_reaction [alcohol] alkene cond_dehydration type_elimination e2)
                else d3);
          d5 = add_reaction [alcohol] aldehyde cond_oxidation_cu type_oxidation d4
      in add_reaction [aldehyde] acid cond_oxidation_kmno4 type_oxidation d5)"

definition ester_reaction :: "nat \<Rightarrow> nat \<Rightarrow> OrganicRouteDesigner \<Rightarrow> OrganicRouteDesigner" where
  "ester_reaction a b d =
     add_reaction [''acid:C'' @ fmt_nat a, ''alcohol:C'' @ fmt_nat b]
       (''ester:C'' @ fmt_nat a @ '':C'' @ fmt_nat b) cond_esterification type_esterification d"

definition aromatic_reactions :: "OrganicRouteDesigner \<Rightarrow> OrganicRouteDesigner" where
  "aromatic_reactions d =
     (let d1 = add_reaction [''benzene''] ''chlorobenzene'' cond_ring_chlorination type_substitution d;
          d2 = add_reaction [''benzene''] ''bromobenzene'' cond_ring_bromination type_substitution d1;
          d3 = add_reaction [''benzene''] ''nitrobenzene'' cond_nitration type_nitration d2;
          d4 = add_reaction [''nitrobenzene''] ''aniline'' cond_reduction type_reduction d3
      in add_reaction [''chlorobenzene''] ''phenol'' cond_phenol type_hydrolysis d4)"

definition build_reactions :: "OrganicRouteDesigner \<Rightarrow> OrganicRouteDesigner" where
  "build_reactions d =
     aromatic_reactions
       (fold (\<lambda>a. fold (\<lambda>b. ester_reaction a b) [1..<11]) [1..<11]
          (fold carbon_reactions [1..<11] d))"

text \<open>The starting materials that \<^verbatim>\<open>__init__\<close> sets.\<close>

definition source_starting_materials :: "string set" where
  "source_starting_materials =
     set (map (\<lambda>n. ''alkane:C'' @ fmt_nat n) [1..<11])
     \<union> {''alkene:C2'', ''alkene:C3'', ''alkene:C4'', ''benzene'', ''alcohol:C1'', ''alcohol:C2''}"

text \<open>\<^verbatim>\<open>OrganicRouteDesigner()\<close>: the designer that \<^verbatim>\<open>__init__\<close> builds.\<close>

definition organic_route_designer :: OrganicRouteDesigner where
  "organic_route_designer =
     (build_reactions (build_compounds (empty_designer {})))
       \<lparr>starting_materials := source_starting_materials\<rparr>"

text \<open>
  The part of the knowledge base on the compounds with three carbon atoms: the iteration
  \<open>n = 3\<close> of the loops of \<^verbatim>\<open>_build_compounds\<close> and \<^verbatim>\<open>_build_reactions\<close> and the
  iteration \<open>a = b = 3\<close> of the loops on the esters, with the starting materials of the
  source. No other reaction of the source has one of these compounds as its product.
\<close>

definition propyl_designer :: OrganicRouteDesigner where
  "propyl_designer =
     (ester_reaction 3 3 (carbon_reactions 3
        (ester_compound 3 3 (carbon_compounds 3 (empty_designer {})))))
       \<lparr>starting_materials := source_starting_materials\<rparr>"

text \<open>
  The part on the compounds with two carbon atoms: the iteration \<open>n = 2\<close> of the first loops
  of \<^verbatim>\<open>_build_compounds\<close> and \<^verbatim>\<open>_build_reactions\<close>.
\<close>

definition ethyl_designer :: OrganicRouteDesigner where
  "ethyl_designer =
     (carbon_reactions 2 (carbon_compounds 2 (empty_designer {})))
       \<lparr>starting_materials := source_starting_materials\<rparr>"

text \<open>
  The two substitution reactions of the source between chloropropane and propanol, alone:
  each of the two compounds is produced from the other, and neither is a starting material.
\<close>

definition cycle_designer :: OrganicRouteDesigner where
  "cycle_designer =
     (add_reaction [''alcohol:C3''] ''haloalkane:C3'' cond_hcl type_substitution
        (add_reaction [''haloalkane:C3''] ''alcohol:C3'' cond_hydrolysis type_substitution
           (carbon_compounds 3 (empty_designer {}))))
       \<lparr>starting_materials := source_starting_materials\<rparr>"

text \<open>
  Benzene, chlorobenzene and phenol with the two reactions of the source between them:
  chlorobenzene is one step from the starting material benzene, phenol two steps.
\<close>

definition phenol_designer :: OrganicRouteDesigner where
  "phenol_designer =
     (add_reaction [''chlorobenzene''] ''phenol'' cond_phenol type_hydrolysis
        (add_reaction [''benzene''] ''chlorobenzene'' cond_ring_chlorination type_substitution
           (add_compound ''phenol'' name_phenol
              (add_compound ''chlorobenzene'' name_chlorobenzene
                 (add_compound ''benzene'' name_benzene (empty_designer {}))))))
       \<lparr>starting_materials := source_starting_materials\<rparr>"

section \<open>Properties of the search and of the extraction\<close>

subsection \<open>The two loops of the search\<close>

lemma best_cost_sm: "target \<in> starting_materials d \<Longrightarrow> best_cost d target stack = (0, None)"
  by (subst best_cost.simps) simp

lemma collect_steps_sm: "target \<in> starting_materials d \<Longrightarrow> collect_steps d target st stack = (True, st)"
  by (subst collect_steps.simps) simp

lemma UNREACHABLE_pos: "0 < UNREACHABLE" by (simp add: UNREACHABLE_def)

lemma reactants_loop_Some:
  "reactants_loop f rs tot = Some t \<longleftrightarrow>
     (\<forall>r\<in>set rs. f r < UNREACHABLE) \<and> t = tot + sum_list (map f rs)"
  by (induction rs arbitrary: tot) (auto simp: Let_def)

lemma reactants_loop_None:
  "reactants_loop f rs tot = None \<longleftrightarrow> (\<exists>r\<in>set rs. f r \<ge> UNREACHABLE)"
  by (induction rs arbitrary: tot) (auto simp: Let_def)

text \<open>The total that the body of the outer loop computes for one rule.\<close>

definition rule_total :: "OrganicRouteDesigner \<Rightarrow> string \<Rightarrow> string list \<Rightarrow> Reaction \<Rightarrow> int option" where
  "rule_total d target stack rxn =
     reactants_loop (\<lambda>reactant. fst (best_cost d reactant (stack @ [target]))) (reactants rxn) 1"

lemma best_cost_rules:
  "target \<notin> starting_materials d \<Longrightarrow> target \<notin> set stack \<Longrightarrow>
   best_cost d target stack =
     rules_loop (rule_total d target stack) (rules_producing d target) (UNREACHABLE, None)"
  by (subst best_cost.simps) (simp add: rule_total_def [abs_def])

lemma rules_loop_result:
  "rules_loop g rs best = best \<or>
   (\<exists>rxn\<in>set rs. \<exists>c. rules_loop g rs best = (c, Some rxn) \<and> g rxn = Some c \<and> c < fst best)"
proof (induction rs arbitrary: best)
  case Nil
  then show ?case by simp
next
  case (Cons r rs)
  let ?b = "case g r of None \<Rightarrow> best
    | Some tot \<Rightarrow> if tot < fst best then (tot, Some r) else best"
  have eq: "rules_loop g (r # rs) best = rules_loop g rs ?b" by simp
  have b: "?b = best \<or> (\<exists>c. ?b = (c, Some r) \<and> g r = Some c \<and> c < fst best)"
    by (auto split: option.splits)
  from Cons.IH [of ?b] show ?case
  proof
    assume "rules_loop g rs ?b = ?b"
    with b eq show ?thesis by auto
  next
    assume "\<exists>rxn\<in>set rs. \<exists>c. rules_loop g rs ?b = (c, Some rxn) \<and> g rxn = Some c \<and> c < fst ?b"
    then obtain rxn c where *: "rxn \<in> set rs" "rules_loop g rs ?b = (c, Some rxn)"
      "g rxn = Some c" "c < fst ?b" by blast
    from b *(4) have "c < fst best" by auto
    with * eq show ?thesis by auto
  qed
qed

lemma best_cost_chosen:
  assumes "snd (best_cost d target stack) = Some rxn"
  shows "best_cost d target stack = (the (rule_total d target stack rxn), Some rxn)
    \<and> rule_total d target stack rxn \<noteq> None
    \<and> the (rule_total d target stack rxn) < UNREACHABLE"
proof -
  from best_cost_Some [OF assms] have ns: "target \<notin> starting_materials d" "target \<notin> set stack"
    by simp_all
  note eq = best_cost_rules [OF ns]
  from rules_loop_result [of "rule_total d target stack" "rules_producing d target" "(UNREACHABLE, None)"]
  show ?thesis using assms unfolding eq by auto
qed

lemma best_cost_None:
  assumes "snd (best_cost d target stack) = None" "target \<notin> starting_materials d"
  shows "fst (best_cost d target stack) = UNREACHABLE"
proof (cases "target \<in> set stack")
  case True
  with assms show ?thesis by (subst best_cost.simps) simp
next
  case False
  note eq = best_cost_rules [OF assms(2) False]
  from rules_loop_result [of "rule_total d target stack" "rules_producing d target" "(UNREACHABLE, None)"]
  show ?thesis using assms unfolding eq by auto
qed



subsection \<open>Deduplication and the success of the extraction\<close>

definition dedup_state :: "Reaction set \<times> Reaction list \<Rightarrow> bool" where
  "dedup_state st \<longleftrightarrow> fst st = set (snd st) \<and> distinct (snd st)"

definition grows :: "int \<Rightarrow> Reaction set \<times> Reaction list
    \<Rightarrow> bool \<times> Reaction set \<times> Reaction list \<Rightarrow> bool" where
  "grows bound st res \<longleftrightarrow>
     (\<exists>zs. snd (snd res) = snd st @ zs \<and> (fst res \<longrightarrow> int (length zs) \<le> bound))"

definition collect_post :: "OrganicRouteDesigner \<Rightarrow> string \<Rightarrow> string list
    \<Rightarrow> Reaction set \<times> Reaction list \<Rightarrow> bool \<times> Reaction set \<times> Reaction list \<Rightarrow> bool" where
  "collect_post d target stack st res \<longleftrightarrow>
     dedup_state (snd res)
     \<and> grows (fst (best_cost d target stack)) st res
     \<and> (fst (best_cost d target stack) < UNREACHABLE \<longrightarrow> fst res)"

lemma collect_loop_post:
  assumes "\<And>r s. r \<in> set rs \<Longrightarrow> dedup_state s \<Longrightarrow> collect_post d r stk s (f r s)"
    and "dedup_state st"
  shows "dedup_state (snd (collect_loop f rs st))
     \<and> grows (sum_list (map (\<lambda>r. fst (best_cost d r stk)) rs)) st (collect_loop f rs st)
     \<and> ((\<forall>r\<in>set rs. fst (best_cost d r stk) < UNREACHABLE) \<longrightarrow> fst (collect_loop f rs st))"
  using assms
proof (induction rs arbitrary: st)
  case Nil
  then show ?case by (simp add: grows_def)
next
  case (Cons r rs)
  obtain ok s1 where f: "f r st = (ok, s1)" by (cases "f r st")
  from Cons.prems(1) [of r st] Cons.prems(2) f
  have p1: "collect_post d r stk st (ok, s1)" by simp
  then have g1: "dedup_state s1" by (simp add: collect_post_def)
  show ?case
  proof (cases ok)
    case False
    with f p1 show ?thesis
      by (auto simp: collect_post_def grows_def)
  next
    case True
    let ?res = "collect_loop f rs s1"
    have eq: "collect_loop f (r # rs) st = ?res" using f True by simp
    have ih: "dedup_state (snd ?res)
      \<and> grows (sum_list (map (\<lambda>r. fst (best_cost d r stk)) rs)) s1 ?res
      \<and> ((\<forall>r\<in>set rs. fst (best_cost d r stk) < UNREACHABLE) \<longrightarrow> fst ?res)"
      by (rule Cons.IH) (use Cons.prems(1) g1 in auto)
    from p1 True obtain zs1 where z1: "snd s1 = snd st @ zs1"
      "int (length zs1) \<le> fst (best_cost d r stk)"
      by (auto simp: collect_post_def grows_def)
    from ih obtain zs2 where z2: "snd (snd ?res) = snd s1 @ zs2"
      "fst ?res \<longrightarrow> int (length zs2) \<le> sum_list (map (\<lambda>r. fst (best_cost d r stk)) rs)"
      by (auto simp: grows_def)
    have ext: "grows (sum_list (map (\<lambda>r. fst (best_cost d r stk)) (r # rs))) st ?res"
      unfolding grows_def
      by (rule exI [of _ "zs1 @ zs2"]) (use z1 z2 in auto)
    with ih p1 True show ?thesis unfolding eq
      by (auto simp: collect_post_def)
  qed
qed

lemma collect_steps_post:
  "dedup_state st \<Longrightarrow> collect_post d target stack st (collect_steps d target st stack)"
proof (induction d target st stack rule: collect_steps.induct)
  case (1 d target st stack)
  note gs = \<open>dedup_state st\<close>
  show ?case
  proof (cases "target \<in> starting_materials d")
    case True
    then show ?thesis using gs
      by (simp add: collect_steps_sm collect_post_def grows_def best_cost_sm)
  next
    case nsm: False
    show ?thesis
    proof (cases "snd (best_cost d target stack)")
      case None
      then have c: "collect_steps d target st stack = (False, st)"
        using nsm by (subst collect_steps.simps) simp
      from best_cost_None [OF None nsm] show ?thesis using gs
        by (simp add: c collect_post_def grows_def)
    next
      case (Some rxn)
      let ?stk = "stack @ [target]"
      let ?f = "\<lambda>r s. collect_steps d r s ?stk"
      let ?res = "collect_loop ?f (reactants rxn) st"
      from best_cost_chosen [OF Some] obtain tot where
        bc: "best_cost d target stack = (tot, Some rxn)"
        and rt: "rule_total d target stack rxn = Some tot" and lt: "tot < UNREACHABLE"
        by auto
      from rt have feas: "\<forall>r\<in>set (reactants rxn). fst (best_cost d r ?stk) < UNREACHABLE"
        and tot: "tot = 1 + sum_list (map (\<lambda>r. fst (best_cost d r ?stk)) (reactants rxn))"
        by (simp_all add: rule_total_def reactants_loop_Some)
      have loop: "dedup_state (snd ?res)
        \<and> grows (sum_list (map (\<lambda>r. fst (best_cost d r ?stk)) (reactants rxn))) st ?res
        \<and> ((\<forall>r\<in>set (reactants rxn). fst (best_cost d r ?stk) < UNREACHABLE) \<longrightarrow> fst ?res)"
        by (rule collect_loop_post) (use "1.IH" [OF nsm Some] gs in auto)
      with feas have ok: "fst ?res" by simp
      obtain seen ordered where res: "?res = (True, seen, ordered)"
        using ok by (cases ?res) auto
      from loop res obtain zs where zs: "ordered = snd st @ zs" "int (length zs) \<le> tot - 1"
        by (auto simp: grows_def tot)
      from loop res have g: "seen = set ordered" "distinct ordered"
        by (simp_all add: dedup_state_def)
      have c: "collect_steps d target st stack =
          (if rxn \<notin> seen then (True, insert rxn seen, ordered @ [rxn]) else (True, seen, ordered))"
        using nsm Some res by (subst collect_steps.simps) simp
      show ?thesis
      proof (cases "rxn \<in> seen")
        case True
        with c g zs show ?thesis
          by (auto simp: collect_post_def dedup_state_def grows_def bc)
      next
        case False
        have e: "grows tot st (True, insert rxn seen, ordered @ [rxn])"
          unfolding grows_def
          by (rule exI [of _ "zs @ [rxn]"]) (use zs in auto)
        from False c g e show ?thesis
          by (auto simp: collect_post_def dedup_state_def bc)
      qed
    qed
  qed
qed

subsection \<open>Dependency order\<close>

text \<open>
  Running a sequence of rules forward from a set of available compounds: each rule finds
  its inputs available and makes its product available.
\<close>

fun dep_ordered :: "string set \<Rightarrow> Reaction list \<Rightarrow> bool" where
  "dep_ordered avail [] = True"
| "dep_ordered avail (r # rs) =
     (set (reactants r) \<subseteq> avail \<and> dep_ordered (insert (product r) avail) rs)"

lemma dep_ordered_append:
  "dep_ordered avail (xs @ ys) \<longleftrightarrow>
     dep_ordered avail xs \<and> dep_ordered (avail \<union> product ` set xs) ys"
  by (induction xs arbitrary: avail) (auto simp: insert_commute)

definition dep_state :: "OrganicRouteDesigner \<Rightarrow> Reaction set \<times> Reaction list \<Rightarrow> bool" where
  "dep_state d st \<longleftrightarrow>
     fst st = set (snd st) \<and> dep_ordered (starting_materials d) (snd st)"

definition made :: "OrganicRouteDesigner \<Rightarrow> Reaction set \<times> Reaction list \<Rightarrow> string \<Rightarrow> bool" where
  "made d st c \<longleftrightarrow> c \<in> starting_materials d \<or> c \<in> product ` set (snd st)"

definition fresh :: "string list \<Rightarrow> Reaction set \<times> Reaction list
    \<Rightarrow> bool \<times> Reaction set \<times> Reaction list \<Rightarrow> bool" where
  "fresh stack st res \<longleftrightarrow>
     (\<exists>zs. snd (snd res) = snd st @ zs \<and> (\<forall>z\<in>set zs. product z \<notin> set stack))"

definition dep_post :: "OrganicRouteDesigner \<Rightarrow> string \<Rightarrow> string list
    \<Rightarrow> Reaction set \<times> Reaction list \<Rightarrow> bool \<times> Reaction set \<times> Reaction list \<Rightarrow> bool" where
  "dep_post d target stack st res \<longleftrightarrow>
     dep_state d (snd res) \<and> fresh stack st res \<and> (fst res \<longrightarrow> made d (snd res) target)"

lemma collect_loop_dep:
  assumes "\<And>r s. r \<in> set rs \<Longrightarrow> dep_state d s \<Longrightarrow> dep_post d r stk s (f r s)"
    and "dep_state d st"
  shows "dep_state d (snd (collect_loop f rs st))
     \<and> fresh stk st (collect_loop f rs st)
     \<and> (fst (collect_loop f rs st) \<longrightarrow> (\<forall>r\<in>set rs. made d (snd (collect_loop f rs st)) r))"
  using assms
proof (induction rs arbitrary: st)
  case Nil
  then show ?case by (simp add: fresh_def)
next
  case (Cons r rs)
  obtain ok s1 where f: "f r st = (ok, s1)" by (cases "f r st")
  from Cons.prems(1) [of r st] Cons.prems(2) f
  have p1: "dep_post d r stk st (ok, s1)" by simp
  then have g1: "dep_state d s1" by (simp add: dep_post_def)
  show ?case
  proof (cases ok)
    case False
    with f p1 show ?thesis
      by (auto simp: dep_post_def)
  next
    case True
    let ?res = "collect_loop f rs s1"
    have eq: "collect_loop f (r # rs) st = ?res" using f True by simp
    have ih: "dep_state d (snd ?res) \<and> fresh stk s1 ?res
      \<and> (fst ?res \<longrightarrow> (\<forall>r\<in>set rs. made d (snd ?res) r))"
      by (rule Cons.IH) (use Cons.prems(1) g1 in auto)
    from p1 obtain zs1 where z1: "snd s1 = snd st @ zs1"
      "\<forall>z\<in>set zs1. product z \<notin> set stk"
      by (auto simp: dep_post_def fresh_def)
    from ih obtain zs2 where z2: "snd (snd ?res) = snd s1 @ zs2"
      "\<forall>z\<in>set zs2. product z \<notin> set stk"
      by (auto simp: fresh_def)
    have ext: "fresh stk st ?res"
      unfolding fresh_def
      by (rule exI [of _ "zs1 @ zs2"]) (use z1 z2 in auto)
    have m1: "made d s1 r" using p1 True by (simp add: dep_post_def)
    have "made d (snd ?res) r" using m1 z2(1) by (auto simp: made_def)
    with ih ext show ?thesis unfolding eq by auto
  qed
qed

lemma collect_steps_dep:
  "index_ok d \<Longrightarrow> dep_state d st
   \<Longrightarrow> dep_post d target stack st (collect_steps d target st stack)"
proof (induction d target st stack rule: collect_steps.induct)
  case (1 d target st stack)
  note idx = \<open>index_ok d\<close> and gs = \<open>dep_state d st\<close>
  show ?case
  proof (cases "target \<in> starting_materials d")
    case True
    then show ?thesis using gs
      by (simp add: collect_steps_sm dep_post_def fresh_def made_def)
  next
    case nsm: False
    show ?thesis
    proof (cases "snd (best_cost d target stack)")
      case None
      then have c: "collect_steps d target st stack = (False, st)"
        using nsm by (subst collect_steps.simps) simp
      show ?thesis using gs by (simp add: c dep_post_def fresh_def)
    next
      case (Some rxn)
      let ?stk = "stack @ [target]"
      let ?f = "\<lambda>r s. collect_steps d r s ?stk"
      let ?res = "collect_loop ?f (reactants rxn) st"
      from best_cost_Some [OF Some] have ns: "target \<notin> set stack"
        and rp: "rxn \<in> set (rules_producing d target)" by simp_all
      from index_ok_product [OF idx rp] have prod: "product rxn = target" .
      have loop: "dep_state d (snd ?res) \<and> fresh ?stk st ?res
        \<and> (fst ?res \<longrightarrow> (\<forall>r\<in>set (reactants rxn). made d (snd ?res) r))"
        by (rule collect_loop_dep) (use "1.IH" [OF nsm Some] idx gs in auto)
      obtain ok seen ordered where res: "?res = (ok, seen, ordered)"
        by (cases ?res) auto
      from loop res obtain zs where zs: "ordered = snd st @ zs"
        "\<forall>z\<in>set zs. product z \<notin> set ?stk"
        by (auto simp: fresh_def)
      from loop res have g: "seen = set ordered" "dep_ordered (starting_materials d) ordered"
        by (simp_all add: dep_state_def)
      have c: "collect_steps d target st stack =
          (if \<not> ok then (False, seen, ordered)
           else if rxn \<notin> seen then (True, insert rxn seen, ordered @ [rxn])
           else (True, seen, ordered))"
        using nsm Some res by (subst collect_steps.simps) simp
      show ?thesis
      proof (cases ok)
        case False
        with c g zs show ?thesis by (auto simp: dep_post_def dep_state_def fresh_def)
      next
        case ok: True
        with loop res have avail: "\<forall>r\<in>set (reactants rxn).
            r \<in> starting_materials d \<or> r \<in> product ` set ordered"
          by (simp add: made_def)
        show ?thesis
        proof (cases "rxn \<in> seen")
          case True
          then have "target \<in> product ` set ordered" using g(1) prod by force
          with True ok c g zs show ?thesis
            by (auto simp: dep_post_def dep_state_def fresh_def made_def)
        next
          case False
          have d: "dep_ordered (starting_materials d) (ordered @ [rxn])"
            using g(2) avail by (auto simp: dep_ordered_append)
          have e: "fresh stack st (True, insert rxn seen, ordered @ [rxn])"
            unfolding fresh_def
            by (rule exI [of _ "zs @ [rxn]"]) (use zs prod ns in auto)
          from False ok c g d e prod show ?thesis
            by (auto simp: dep_post_def dep_state_def made_def)
        qed
      qed
    qed
  qed
qed

subsection \<open>The route of a known target\<close>

lemma dedup_state_init: "dedup_state ({}, [])"
  by (simp add: dedup_state_def)

lemma dep_state_init: "dep_state d ({}, [])"
  by (simp add: dep_state_def)

lemma design_route_unknown: "compound_id d name = None \<Longrightarrow> design_route d name = None"
  by (simp add: design_route_def)

lemma design_route_unreachable:
  "compound_id d name = Some cid \<Longrightarrow> UNREACHABLE \<le> fst (best_cost d cid [])
   \<Longrightarrow> design_route d name = Some []"
  by (simp add: design_route_def)

lemma design_route_reachable:
  assumes "compound_id d name = Some cid" "fst (best_cost d cid []) < UNREACHABLE"
  shows "\<exists>seen steps. collect_steps d cid ({}, []) [] = (True, seen, steps)
    \<and> design_route d name = Some steps"
proof -
  obtain ok seen steps where c: "collect_steps d cid ({}, []) [] = (ok, seen, steps)"
    by (cases "collect_steps d cid ({}, []) []") auto
  from collect_steps_post [OF dedup_state_init, of d cid "[]"] assms(2) c
  have ok by (simp add: collect_post_def)
  with c assms show ?thesis by (simp add: design_route_def)
qed

lemma design_route_cases:
  assumes "design_route d name = Some steps"
  obtains (unreachable) cid where "compound_id d name = Some cid"
      "UNREACHABLE \<le> fst (best_cost d cid [])" "steps = []"
    | (reachable) cid seen where "compound_id d name = Some cid"
      "fst (best_cost d cid []) < UNREACHABLE"
      "collect_steps d cid ({}, []) [] = (True, seen, steps)"
proof (cases "compound_id d name")
  case None
  with assms show ?thesis by (simp add: design_route_def)
next
  case (Some cid)
  show ?thesis
  proof (cases "fst (best_cost d cid []) < UNREACHABLE")
    case True
    from design_route_reachable [OF Some True] assms reachable [OF Some True] show ?thesis
      by auto
  next
    case False
    with Some assms unreachable [OF Some] show ?thesis
      by (simp add: design_route_def)
  qed
qed

lemma dep_ordered_snoc:
  "dep_ordered avail (xs @ [x]) \<longleftrightarrow>
     dep_ordered avail xs \<and> set (reactants x) \<subseteq> avail \<union> product ` set xs"
  by (simp add: dep_ordered_append)

lemma dep_ordered_nth:
  "dep_ordered avail xs \<longleftrightarrow>
     (\<forall>i<length xs. \<forall>c\<in>set (reactants (xs ! i)). c \<in> avail \<or> (\<exists>j<i. product (xs ! j) = c))"
proof (induction xs rule: rev_induct)
  case Nil
  then show ?case by simp
next
  case (snoc x xs)
  let ?ok = "\<lambda>ys i. \<forall>c\<in>set (reactants (ys ! i)). c \<in> avail \<or> (\<exists>j<i. product (ys ! j) = c)"
  have old: "?ok (xs @ [x]) i \<longleftrightarrow> ?ok xs i" if "i < length xs" for i
  proof -
    have "(xs @ [x]) ! j = xs ! j" if "j \<le> i" for j
      using that \<open>i < length xs\<close> by (simp add: nth_append)
    then show ?thesis by (metis less_imp_le order_refl)
  qed
  have new: "?ok (xs @ [x]) (length xs) \<longleftrightarrow> set (reactants x) \<subseteq> avail \<union> product ` set xs"
  proof -
    have "(\<exists>j<length xs. product ((xs @ [x]) ! j) = c) \<longleftrightarrow> c \<in> product ` set xs" for c
    proof
      assume "\<exists>j<length xs. product ((xs @ [x]) ! j) = c"
      then obtain j where "j < length xs" "product (xs ! j) = c"
        by (auto simp: nth_append)
      then show "c \<in> product ` set xs"
        using nth_mem [of j xs] by force
    next
      assume "c \<in> product ` set xs"
      then obtain j where "j < length xs" "product (xs ! j) = c"
        by (auto simp: in_set_conv_nth)
      then show "\<exists>j<length xs. product ((xs @ [x]) ! j) = c"
        by (auto simp: nth_append)
    qed
    then show ?thesis by auto
  qed
  have "(\<forall>i<length (xs @ [x]). ?ok (xs @ [x]) i)
      \<longleftrightarrow> (\<forall>i<length xs. ?ok (xs @ [x]) i) \<and> ?ok (xs @ [x]) (length xs)"
    by (simp add: less_Suc_eq all_conj_distrib)
  also have "\<dots> \<longleftrightarrow> (\<forall>i<length xs. ?ok xs i) \<and> set (reactants x) \<subseteq> avail \<union> product ` set xs"
    using old new by simp
  finally show ?case
    unfolding dep_ordered_snoc snoc.IH by simp
qed

subsection \<open>The last rule of a route\<close>

lemma best_cost_reachable:
  assumes "target \<notin> starting_materials d" "fst (best_cost d target stack) < UNREACHABLE"
  obtains rxn tot where "best_cost d target stack = (tot, Some rxn)"
    "rxn \<in> set (rules_producing d target)" "target \<notin> set stack"
    "\<forall>r\<in>set (reactants rxn). fst (best_cost d r (stack @ [target])) < UNREACHABLE"
    "tot = 1 + sum_list (map (\<lambda>r. fst (best_cost d r (stack @ [target]))) (reactants rxn))"
proof (cases "snd (best_cost d target stack)")
  case None
  from best_cost_None [OF None assms(1)] assms(2) show ?thesis by simp
next
  case (Some rxn)
  from best_cost_chosen [OF Some] obtain tot where
    bc: "best_cost d target stack = (tot, Some rxn)"
    and rt: "rule_total d target stack rxn = Some tot"
    by auto
  from rt have "\<forall>r\<in>set (reactants rxn). fst (best_cost d r (stack @ [target])) < UNREACHABLE"
    and "tot = 1 + sum_list (map (\<lambda>r. fst (best_cost d r (stack @ [target]))) (reactants rxn))"
    by (simp_all add: rule_total_def reactants_loop_Some)
  with that [OF bc] best_cost_Some [OF Some] show ?thesis by simp
qed

lemma collect_steps_last:
  assumes idx: "index_ok d" and nsm: "target \<notin> starting_materials d"
    and lt: "fst (best_cost d target stack) < UNREACHABLE"
    and st: "dedup_state st" "dep_state d st"
    and new: "\<forall>z\<in>set (snd st). product z \<noteq> target"
  shows "\<exists>seen ordered rxn. collect_steps d target st stack = (True, insert rxn seen, ordered @ [rxn])
    \<and> product rxn = target"
proof -
  from nsm lt obtain rxn tot where bc: "best_cost d target stack = (tot, Some rxn)"
    and rp: "rxn \<in> set (rules_producing d target)"
    and feas: "\<forall>r\<in>set (reactants rxn). fst (best_cost d r (stack @ [target])) < UNREACHABLE"
    by (rule best_cost_reachable)
  let ?stk = "stack @ [target]"
  let ?f = "\<lambda>r s. collect_steps d r s ?stk"
  let ?res = "collect_loop ?f (reactants rxn) st"
  from index_ok_product [OF idx rp] have prod: "product rxn = target" .
  have "(\<forall>r\<in>set (reactants rxn). fst (best_cost d r ?stk) < UNREACHABLE) \<longrightarrow> fst ?res"
    using collect_loop_post [of "reactants rxn" d ?stk ?f st] collect_steps_post st(1) by blast
  with feas have ok: "fst ?res" by simp
  have dep: "dep_state d (snd ?res) \<and> fresh ?stk st ?res"
    using collect_loop_dep [of "reactants rxn" d ?stk ?f st] collect_steps_dep [OF idx] st(2)
    by blast
  obtain seen ordered where res: "?res = (True, seen, ordered)"
    using ok by (cases ?res) auto
  from dep res obtain zs where zs: "ordered = snd st @ zs"
    "\<forall>z\<in>set zs. product z \<notin> set ?stk"
    by (auto simp: fresh_def)
  from dep res have seen: "seen = set ordered" by (simp add: dep_state_def)
  have "rxn \<notin> seen" using seen zs new prod by auto
  then have "collect_steps d target st stack = (True, insert rxn seen, ordered @ [rxn])"
    using nsm bc res by (subst collect_steps.simps) simp
  with prod show ?thesis by blast
qed

subsection \<open>The traversal that the extraction makes\<close>

text \<open>
  The post-order traversal of the chosen rules, with repetitions: the inputs of the best
  rule of a compound first, in their order, then the rule.
\<close>

function post_order :: "OrganicRouteDesigner \<Rightarrow> string \<Rightarrow> string list \<Rightarrow> Reaction list" where
  "post_order d target stack =
     (if target \<in> starting_materials d then []
      else case snd (best_cost d target stack) of
        None \<Rightarrow> []
      | Some rxn \<Rightarrow>
          concat (map (\<lambda>r. post_order d r (stack @ [target])) (reactants rxn)) @ [rxn])"
  by pat_completeness auto
termination
  by (relation "measure (\<lambda>(d, target, stack).
        card (fst ` set (product_to_reactions d) - set stack))")
     (auto simp del: set_append dest!: best_cost_Some rules_producing_key intro!: card_keys_less)

declare post_order.simps [simp del]

text \<open>Appending each rule of a sequence that is not yet in the output.\<close>

fun emit_once :: "Reaction list \<Rightarrow> Reaction list \<Rightarrow> Reaction list" where
  "emit_once [] ordered = ordered"
| "emit_once (r # rs) ordered = emit_once rs (if r \<in> set ordered then ordered else ordered @ [r])"

lemma emit_once_append: "emit_once (xs @ ys) ordered = emit_once ys (emit_once xs ordered)"
  by (induction xs arbitrary: ordered) auto

lemma set_emit_once: "set (emit_once xs ordered) = set ordered \<union> set xs"
  by (induction xs arbitrary: ordered) auto

lemma distinct_emit_once: "distinct ordered \<Longrightarrow> distinct (emit_once xs ordered)"
  by (induction xs arbitrary: ordered) auto

lemma length_emit_once:
  "distinct ordered \<Longrightarrow> length (emit_once xs ordered) = card (set ordered \<union> set xs)"
  using distinct_emit_once [of ordered xs] set_emit_once [of xs ordered]
  by (metis distinct_card)

lemma length_post_order:
  "fst (best_cost d target stack) < UNREACHABLE
   \<Longrightarrow> int (length (post_order d target stack)) = fst (best_cost d target stack)"
proof (induction d target stack rule: post_order.induct)
  case (1 d target stack)
  show ?case
  proof (cases "target \<in> starting_materials d")
    case True
    then show ?thesis by (subst post_order.simps) (simp add: best_cost_sm)
  next
    case nsm: False
    from nsm "1.prems" obtain rxn tot where bc: "best_cost d target stack = (tot, Some rxn)"
      and feas: "\<forall>r\<in>set (reactants rxn). fst (best_cost d r (stack @ [target])) < UNREACHABLE"
      and tot: "tot = 1 + sum_list (map (\<lambda>r. fst (best_cost d r (stack @ [target]))) (reactants rxn))"
      by (rule best_cost_reachable)
    have ih: "\<forall>r\<in>set (reactants rxn).
        int (length (post_order d r (stack @ [target]))) = fst (best_cost d r (stack @ [target]))"
      using "1.IH" [OF nsm] bc feas by simp
    have "int (length (concat (map (\<lambda>r. post_order d r (stack @ [target])) rs)))
        = sum_list (map (\<lambda>r. fst (best_cost d r (stack @ [target]))) rs)"
      if "set rs \<subseteq> set (reactants rxn)" for rs
      using that ih by (induction rs) auto
    from this [of "reactants rxn"] show ?thesis
      using nsm bc tot by (subst post_order.simps) simp
  qed
qed


lemma collect_loop_emit:
  assumes "\<And>r s. r \<in> set rs \<Longrightarrow> fst s = set (snd s)
      \<Longrightarrow> f r s = (True, set (emit_once (po r) (snd s)), emit_once (po r) (snd s))"
    and "fst st = set (snd st)"
  shows "collect_loop f rs st =
     (True, set (emit_once (concat (map po rs)) (snd st)), emit_once (concat (map po rs)) (snd st))"
  using assms
proof (induction rs arbitrary: st)
  case Nil
  then show ?case by (cases st) simp
next
  case (Cons r rs)
  let ?s1 = "(set (emit_once (po r) (snd st)), emit_once (po r) (snd st))"
  have f: "f r st = (True, ?s1)" using Cons.prems by simp
  have "collect_loop f rs ?s1 =
     (True, set (emit_once (concat (map po rs)) (snd ?s1)), emit_once (concat (map po rs)) (snd ?s1))"
    by (rule Cons.IH) (use Cons.prems(1) in auto)
  with f show ?case by (simp add: emit_once_append)
qed

lemma collect_steps_emit:
  "fst st = set (snd st) \<Longrightarrow> fst (best_cost d target stack) < UNREACHABLE
   \<Longrightarrow> collect_steps d target st stack =
       (True, set (emit_once (post_order d target stack) (snd st)),
        emit_once (post_order d target stack) (snd st))"
proof (induction d target st stack rule: collect_steps.induct)
  case (1 d target st stack)
  note tr = \<open>fst st = set (snd st)\<close>
  show ?case
  proof (cases "target \<in> starting_materials d")
    case True
    then have "post_order d target stack = []" by (subst post_order.simps) simp
    with True tr show ?thesis by (cases st) (simp add: collect_steps_sm)
  next
    case nsm: False
    from nsm "1.prems"(2) obtain rxn tot where bc: "best_cost d target stack = (tot, Some rxn)"
      and feas: "\<forall>r\<in>set (reactants rxn). fst (best_cost d r (stack @ [target])) < UNREACHABLE"
      by (rule best_cost_reachable)
    let ?stk = "stack @ [target]"
    let ?po = "\<lambda>r. post_order d r ?stk"
    let ?ys = "emit_once (concat (map ?po (reactants rxn))) (snd st)"
    have loop: "collect_loop (\<lambda>r s. collect_steps d r s ?stk) (reactants rxn) st
        = (True, set ?ys, ?ys)"
      by (rule collect_loop_emit) (use "1.IH" [OF nsm] bc feas tr in auto)
    have po: "post_order d target stack = concat (map ?po (reactants rxn)) @ [rxn]"
      using nsm bc by (subst post_order.simps) simp
    show ?thesis
      using nsm bc loop unfolding po
      by (subst collect_steps.simps) (simp add: emit_once_append)
  qed
qed

subsection \<open>The minimum that the search computes\<close>

text \<open>
  The total of one rule in the words of the specification: no total when an input is
  unreachable, otherwise 1 plus the sum of the costs of the inputs, each computed with the
  target appended to the path.
\<close>

definition rule_cost :: "OrganicRouteDesigner \<Rightarrow> string \<Rightarrow> string list \<Rightarrow> Reaction \<Rightarrow> int option" where
  "rule_cost d target path rxn =
     (let costs = map (\<lambda>r. fst (best_cost d r (path @ [target]))) (reactants rxn)
      in if \<exists>c\<in>set costs. UNREACHABLE \<le> c then None else Some (1 + sum_list costs))"

lemma rule_total_eq: "rule_total d target path rxn = rule_cost d target path rxn"
proof (cases "rule_total d target path rxn")
  case None
  then show ?thesis
    by (auto simp: rule_total_def rule_cost_def reactants_loop_None Let_def)
next
  case (Some t)
  then show ?thesis
    by (auto simp: rule_total_def rule_cost_def reactants_loop_Some Let_def)
qed

lemma fold_min_le: "fold min xs (b::int) \<le> b"
proof (induction xs arbitrary: b)
  case Nil
  then show ?case by simp
next
  case (Cons x xs)
  have "fold min xs (min x b) \<le> min x b" by (rule Cons.IH)
  then show ?case by simp
qed

lemma rules_loop_closed:
  "rules_loop g rs best =
     (let m = fold min (List.map_filter g rs) (fst best)
      in if m < fst best then (m, find (\<lambda>r. g r = Some m) rs) else best)"
proof (induction rs arbitrary: best)
  case Nil
  then show ?case by (simp add: map_filter_simps)
next
  case (Cons r rs)
  let ?b = "case g r of None \<Rightarrow> best
    | Some tot \<Rightarrow> if tot < fst best then (tot, Some r) else best"
  let ?m = "fold min (List.map_filter g rs) (fst ?b)"
  have ih: "rules_loop g (r # rs) best =
      (if ?m < fst ?b then (?m, find (\<lambda>r. g r = Some ?m) rs) else ?b)"
    using Cons.IH [of ?b] by (simp add: Let_def)
  have le: "?m \<le> fst ?b" by (rule fold_min_le)
  show ?case
  proof (cases "g r")
    case None
    then show ?thesis using ih by (simp add: map_filter_simps Let_def)
  next
    case (Some t)
    show ?thesis
    proof (cases "t < fst best")
      case True
      then have b: "?b = (t, Some r)" using Some by simp
      have m: "fold min (List.map_filter g (r # rs)) (fst best) = ?m"
        using Some True b by (simp add: map_filter_simps min_def)
      show ?thesis
      proof (cases "?m < t")
        case lt: True
        then have "g r \<noteq> Some ?m" using Some by simp
        with ih b lt True show ?thesis unfolding Let_def m by simp
      next
        case False
        with le b have "?m = t" by simp
        with ih b True Some show ?thesis unfolding Let_def m by simp
      qed
    next
      case False
      then have b: "?b = best" using Some by simp
      have m: "fold min (List.map_filter g (r # rs)) (fst best) = ?m"
        using Some False b by (simp add: map_filter_simps min_def)
      have "g r \<noteq> Some ?m" if "?m < fst best" using that Some False by auto
      with ih b show ?thesis unfolding Let_def m by auto
    qed
  qed
qed

lemma Min_set_fold: "Min (set (b # xs)) = fold min xs (b::int)"
  by (rule Min.set_eq_fold)

subsection \<open>Termination and cycles\<close>

text \<open>
  The recursive calls that an activation of \<^verbatim>\<open>_best_cost\<close> can make: one for each input of
  each rule producing the target, with the target appended to the path, when the target is
  neither a starting material nor in the path.
\<close>

inductive calls :: "OrganicRouteDesigner \<Rightarrow> string \<times> string list \<Rightarrow> string \<times> string list \<Rightarrow> bool"
  for d :: OrganicRouteDesigner where
  "target \<notin> starting_materials d \<Longrightarrow> target \<notin> set stack
   \<Longrightarrow> rxn \<in> set (rules_producing d target) \<Longrightarrow> reactant \<in> set (reactants rxn)
   \<Longrightarrow> calls d (target, stack) (reactant, stack @ [target])"

text \<open>The compounds that some rule produces: the keys of the index.\<close>

definition produced :: "OrganicRouteDesigner \<Rightarrow> string set" where
  "produced d = fst ` set (product_to_reactions d)"

lemma rules_producing_produced:
  "rxn \<in> set (rules_producing d target) \<Longrightarrow> target \<in> produced d"
  unfolding produced_def by (rule rules_producing_key)

lemma card_produced_less:
  assumes "target \<in> produced d" "target \<notin> set stack"
  shows "card (produced d - set (stack @ [target])) < card (produced d - set stack)"
  using assms unfolding produced_def by (rule card_keys_less)

lemma calls_wf: "wfP (\<lambda>callee caller. calls d caller callee)"
proof (rule wfp_if_convertible_to_nat)
  fix callee caller :: "string \<times> string list"
  assume "calls d caller callee"
  then show "(\<lambda>(target, stack). card (produced d - set stack)) callee
      < (\<lambda>(target, stack). card (produced d - set stack)) caller"
  proof (cases rule: calls.cases)
    case (1 target stack rxn reactant)
    with card_produced_less [of target d stack] rules_producing_produced [of rxn d target]
    show ?thesis by simp
  qed
qed

lemma calls_path:
  assumes "(calls d)\<^sup>*\<^sup>* (t0, []) (t, stack)"
  shows "distinct stack \<and> set stack \<subseteq> produced d"
  using assms
proof (induction rule: rtranclp_induct2)
  case refl
  then show ?case by simp
next
  case (step t stack t' stack')
  from step.hyps(2) show ?case
  proof (cases rule: calls.cases)
    case (1 rxn)
    with step.IH rules_producing_produced [of rxn d t] show ?thesis by simp
  qed
qed

lemma calls_depth:
  assumes "(calls d)\<^sup>*\<^sup>* (t0, []) (t, stack)"
  shows "length stack \<le> card (produced d)"
proof -
  from calls_path [OF assms] have d: "distinct stack" and s: "set stack \<subseteq> produced d"
    by simp_all
  have "finite (produced d)" by (simp add: produced_def)
  with s have "card (set stack) \<le> card (produced d)" by (intro card_mono)
  with distinct_card [OF d] show ?thesis by simp
qed

lemma rules_loop_infeasible:
  "\<forall>r\<in>set rs. g r = None \<Longrightarrow> rules_loop g rs best = best"
  by (induction rs arbitrary: best) auto

lemma best_cost_blocked:
  assumes "target \<notin> starting_materials d"
    and "\<forall>rxn\<in>set (rules_producing d target).
           \<exists>r\<in>set (reactants rxn). UNREACHABLE \<le> fst (best_cost d r (stack @ [target]))"
  shows "best_cost d target stack = (UNREACHABLE, None)"
proof (cases "target \<in> set stack")
  case True
  with assms(1) show ?thesis by (subst best_cost.simps) simp
next
  case False
  have "\<forall>rxn\<in>set (rules_producing d target). rule_total d target stack rxn = None"
    using assms(2) by (simp add: rule_total_def reactants_loop_None)
  then show ?thesis
    unfolding best_cost_rules [OF assms(1) False] by (rule rules_loop_infeasible)
qed

lemma best_cost_in_path:
  "target \<notin> starting_materials d \<Longrightarrow> target \<in> set stack
   \<Longrightarrow> best_cost d target stack = (UNREACHABLE, None)"
  by (subst best_cost.simps) simp

lemma two_cycle_unreachable:
  assumes a: "a \<notin> starting_materials d" and b: "b \<notin> starting_materials d"
    and ra: "\<forall>rxn\<in>set (rules_producing d a). b \<in> set (reactants rxn)"
    and rb: "\<forall>rxn\<in>set (rules_producing d b). a \<in> set (reactants rxn)"
  shows "best_cost d a stack = (UNREACHABLE, None)"
proof (rule best_cost_blocked [OF a], rule ballI)
  fix rxn assume "rxn \<in> set (rules_producing d a)"
  with ra have "b \<in> set (reactants rxn)" by simp
  moreover have "best_cost d b (stack @ [a]) = (UNREACHABLE, None)"
  proof (rule best_cost_blocked [OF b], rule ballI)
    fix rxn' assume "rxn' \<in> set (rules_producing d b)"
    with rb have "a \<in> set (reactants rxn')" by simp
    moreover have "best_cost d a ((stack @ [a]) @ [b]) = (UNREACHABLE, None)"
      by (rule best_cost_in_path [OF a]) simp
    ultimately show "\<exists>r\<in>set (reactants rxn').
        UNREACHABLE \<le> fst (best_cost d r ((stack @ [a]) @ [b]))"
      by force
  qed
  ultimately show "\<exists>r\<in>set (reactants rxn). UNREACHABLE \<le> fst (best_cost d r (stack @ [a]))"
    by force
qed

lemma best_cost_range:
  "0 \<le> fst (best_cost d target stack) \<and> fst (best_cost d target stack) \<le> UNREACHABLE"
proof (induction d target stack rule: best_cost.induct)
  case (1 d target stack)
  show ?case
  proof (cases "target \<in> starting_materials d")
    case True
    then show ?thesis using UNREACHABLE_pos by (simp add: best_cost_sm)
  next
    case nsm: False
    show ?thesis
    proof (cases "fst (best_cost d target stack) < UNREACHABLE")
      case True
      from nsm True obtain rxn tot where bc: "best_cost d target stack = (tot, Some rxn)"
        and rp: "rxn \<in> set (rules_producing d target)" and ns: "target \<notin> set stack"
        and tot: "tot = 1 + sum_list (map (\<lambda>r. fst (best_cost d r (stack @ [target]))) (reactants rxn))"
        by (rule best_cost_reachable)
      have "\<forall>r\<in>set (reactants rxn). 0 \<le> fst (best_cost d r (stack @ [target]))"
        using "1.IH" [OF nsm ns rp] by simp
      then have "0 \<le> sum_list (map (\<lambda>r. fst (best_cost d r (stack @ [target]))) (reactants rxn))"
        by (intro sum_list_nonneg) auto
      with True bc tot show ?thesis by simp
    next
      case False
      then have ge: "UNREACHABLE \<le> fst (best_cost d target stack)" by simp
      have "fst (best_cost d target stack) = UNREACHABLE"
      proof (cases "snd (best_cost d target stack)")
        case None
        from best_cost_None [OF None nsm] show ?thesis .
      next
        case (Some rxn)
        from best_cost_chosen [OF Some] ge show ?thesis by simp
      qed
      then show ?thesis using UNREACHABLE_pos by simp
    qed
  qed
qed


subsection \<open>The ranking\<close>

text \<open>
  The candidates in the words of the specification: the pairs of cost and display name of
  the registered compounds that are not starting materials and are not unreachable.
\<close>

definition ranking_candidates :: "OrganicRouteDesigner \<Rightarrow> (int \<times> string) list" where
  "ranking_candidates d =
     [(fst (best_cost d cid []), name). (cid, name) \<leftarrow> id_to_name d,
        cid \<notin> starting_materials d, fst (best_cost d cid []) < UNREACHABLE]"

lemma candidates_loop_eq:
  "candidates_loop d items candidates =
     candidates @ [(fst (best_cost d cid []), name). (cid, name) \<leftarrow> items,
        cid \<notin> starting_materials d, fst (best_cost d cid []) < UNREACHABLE]"
  by (induction d items candidates rule: candidates_loop.induct) (simp_all add: Let_def)

lemma demo_targets_sort:
  "demo_targets d cnt = map snd (slice_to cnt (sort (ranking_candidates d)))"
  by (simp add: demo_targets_def candidates_loop_eq ranking_candidates_def)

section \<open>Evaluation of the knowledge base\<close>

lemma PREFIX_keys: "\<forall>n\<in>set [1..<11]. prefix_of n \<noteq> None"
  by (simp add: prefix_of_def PREFIX_def upt_rec)

lemma index_ok_starting_materials [simp]:
  "index_ok (d\<lparr>starting_materials := sm\<rparr>) = index_ok d"
  by (simp add: index_ok_def rules_producing_def)

lemma index_ok_carbon_reactions: "index_ok d \<Longrightarrow> index_ok (carbon_reactions n d)"
  by (simp add: carbon_reactions_def Let_def index_ok_add_reaction)

lemma index_ok_ester_reaction: "index_ok d \<Longrightarrow> index_ok (ester_reaction a b d)"
  by (simp add: ester_reaction_def index_ok_add_reaction)

lemma index_ok_carbon_compounds: "index_ok (carbon_compounds n d) = index_ok d"
  by (simp add: carbon_compounds_def Let_def index_ok_add_compound)

lemma index_ok_ester_compound: "index_ok (ester_compound a b d) = index_ok d"
  by (simp add: ester_compound_def index_ok_add_compound)

lemma index_ok_propyl_designer: "index_ok propyl_designer"
  by (simp add: propyl_designer_def index_ok_ester_reaction index_ok_carbon_reactions
      index_ok_carbon_compounds index_ok_ester_compound index_ok_empty)

text \<open>
  The name of propyl propanoate, \<^verbatim>\<open>ester:C3:C3\<close>, as \<^verbatim>\<open>_build_compounds\<close> forms it, and
  the names of propene and propane.
\<close>

definition propyl_propanoate :: string where
  "propyl_propanoate = PREFIX_at 3 @ name_acid @ PREFIX_at 3 @ name_ester"

definition propene :: string where
  "propene = PREFIX_at 3 @ name_alkene"

definition propane :: string where
  "propane = PREFIX_at 3 @ name_alkane"

text \<open>The four reactions of the route to propyl propanoate.\<close>

definition propyl_route :: "Reaction list" where
  "propyl_route =
     [\<lparr>reactants = [''alkene:C3''], product = ''alcohol:C3'',
        condition = cond_hydration, reaction_type = type_addition\<rparr>,
      \<lparr>reactants = [''alcohol:C3''], product = ''aldehyde:C3'',
        condition = cond_oxidation_cu, reaction_type = type_oxidation\<rparr>,
      \<lparr>reactants = [''aldehyde:C3''], product = ''acid:C3'',
        condition = cond_oxidation_kmno4, reaction_type = type_oxidation\<rparr>,
      \<lparr>reactants = [''acid:C3'', ''alcohol:C3''], product = ''ester:C3:C3'',
        condition = cond_esterification, reaction_type = type_esterification\<rparr>]"

lemma compound_id_propyl_propanoate:
  "compound_id propyl_designer propyl_propanoate = Some ''ester:C3:C3''"
  by code_simp

lemma compound_id_propene: "compound_id propyl_designer propene = Some ''alkene:C3''"
  by code_simp

lemma best_cost_propyl_propanoate: "fst (best_cost propyl_designer ''ester:C3:C3'' []) = 5"
  by code_simp

lemma design_route_propyl_propanoate:
  "design_route propyl_designer propyl_propanoate = Some propyl_route"
  by code_simp

text \<open>The same knowledge, with propene as the only starting material.\<close>

definition propene_only_designer :: OrganicRouteDesigner where
  "propene_only_designer = propyl_designer\<lparr>starting_materials := {''alkene:C3''}\<rparr>"

lemma compound_id_propene_only:
  "compound_id propene_only_designer propane = Some ''alkane:C3''"
  "compound_id propene_only_designer propene = Some ''alkene:C3''"
  by code_simp+

lemma best_cost_propane: "best_cost propene_only_designer ''alkane:C3'' [] = (UNREACHABLE, None)"
  by code_simp

lemma propyl_propanoate_not_starting: "''ester:C3:C3'' \<notin> starting_materials propyl_designer"
  by (simp add: propyl_designer_def source_starting_materials_def upt_rec fmt_nat.simps)

lemma UNREACHABLE_gt_5: "5 < UNREACHABLE"
  by (simp add: UNREACHABLE_def)

text \<open>
  The two reactions of the source that produce chloroethane, in registration order: from
  ethane and from ethanol, both starting materials.
\<close>

definition chloroethane_rules :: "Reaction list" where
  "chloroethane_rules =
     [\<lparr>reactants = [''alkane:C2''], product = ''haloalkane:C2'',
        condition = cond_chlorination, reaction_type = type_substitution\<rparr>,
      \<lparr>reactants = [''alcohol:C2''], product = ''haloalkane:C2'',
        condition = cond_hcl, reaction_type = type_substitution\<rparr>]"

lemma rules_producing_chloroethane:
  "rules_producing ethyl_designer ''haloalkane:C2'' = chloroethane_rules"
  by code_simp

lemma rule_cost_chloroethane:
  "map (rule_cost ethyl_designer ''haloalkane:C2'' []) chloroethane_rules = [Some 1, Some 1]"
  by code_simp

definition propanol :: string where
  "propanol = PREFIX_at 3 @ name_alcohol"

lemma cycle_designer_rules:
  "rules_producing cycle_designer ''alcohol:C3'' =
     [\<lparr>reactants = [''haloalkane:C3''], product = ''alcohol:C3'',
        condition = cond_hydrolysis, reaction_type = type_substitution\<rparr>]"
  "rules_producing cycle_designer ''haloalkane:C3'' =
     [\<lparr>reactants = [''alcohol:C3''], product = ''haloalkane:C3'',
        condition = cond_hcl, reaction_type = type_substitution\<rparr>]"
  by code_simp+

lemma cycle_designer_not_starting:
  "''alcohol:C3'' \<notin> starting_materials cycle_designer"
  "''haloalkane:C3'' \<notin> starting_materials cycle_designer"
  by (simp_all add: cycle_designer_def source_starting_materials_def upt_rec fmt_nat.simps)

lemma compound_id_propanol: "compound_id cycle_designer propanol = Some ''alcohol:C3''"
  by code_simp

text \<open>The names of chloropropane, propanal and propanoic acid.\<close>

definition chloropropane :: string where
  "chloropropane = name_chloro @ PREFIX_at 3 @ name_alkane"

definition propanal :: string where
  "propanal = PREFIX_at 3 @ name_aldehyde"

definition propanoic_acid :: string where
  "propanoic_acid = PREFIX_at 3 @ name_acid"

lemma ranking_candidates_phenol:
  "ranking_candidates phenol_designer = [(1, name_chlorobenzene), (2, name_phenol)]"
  by code_simp

lemma ranking_candidates_propyl:
  "ranking_candidates propyl_designer =
     [(1, chloropropane), (1, propanol), (2, propanal), (3, propanoic_acid),
      (5, propyl_propanoate)]"
  by code_simp

lemma sort_candidates_propyl:
  "sort [(1::int, chloropropane), (1, propanol), (2, propanal), (3, propanoic_acid),
      (5, propyl_propanoate)] =
     [(1, propanol), (1, chloropropane), (2, propanal), (3, propanoic_acid),
      (5, propyl_propanoate)]"
  by code_simp

section \<open>The claims\<close>

text \<open>
  C4. The sequence that \<open>design_route\<close> returns never contains the same rule twice: a rule
  is appended only when it is not in \<^verbatim>\<open>seen\<close>, so a rule that several branches need is
  emitted once, where its collection first completes.
\<close>

theorem design_route_distinct:
  assumes "design_route d name = Some steps"
  shows "distinct steps"
  using assms
proof (cases rule: design_route_cases)
  case (reachable cid seen)
  from collect_steps_post [OF dedup_state_init, of d cid "[]"] reachable(3)
  show ?thesis by (simp add: collect_post_def dedup_state_def)
qed simp_all

theorem design_route_distinct_witness:
  "design_route propyl_designer propyl_propanoate = Some propyl_route \<and> distinct propyl_route"
  using design_route_distinct [OF design_route_propyl_propanoate]
    design_route_propyl_propanoate by simp

text \<open>
  C3. In the sequence that \<open>design_route\<close> returns, every input of every rule is a
  starting material or the product of a rule strictly earlier in the sequence; running the
  sequence forward from the starting materials, each rule finds its inputs available.
  The designer is one whose index \<^verbatim>\<open>product_to_reactions\<close> was filled by \<^verbatim>\<open>_add_reaction\<close>.
\<close>

theorem design_route_dependency_order:
  assumes "index_ok d" and "design_route d name = Some steps"
  shows "dep_ordered (starting_materials d) steps
    \<and> (\<forall>i<length steps. \<forall>c\<in>set (reactants (steps ! i)).
          c \<in> starting_materials d \<or> (\<exists>j<i. product (steps ! j) = c))"
proof -
  have "dep_ordered (starting_materials d) steps"
    using assms(2)
  proof (cases rule: design_route_cases)
    case (reachable cid seen)
    from collect_steps_dep [OF assms(1) dep_state_init, of cid "[]"] reachable(3)
    show ?thesis by (simp add: dep_post_def dep_state_def)
  qed simp_all
  then show ?thesis using dep_ordered_nth [of "starting_materials d" steps] by blast
qed

theorem design_route_dependency_order_witness:
  "index_ok propyl_designer
   \<and> design_route propyl_designer propyl_propanoate = Some propyl_route
   \<and> dep_ordered (starting_materials propyl_designer) propyl_route"
  using design_route_dependency_order [OF index_ok_propyl_designer design_route_propyl_propanoate]
    index_ok_propyl_designer design_route_propyl_propanoate by simp

text \<open>
  C7. For a starting material the search returns cost 0 and no rule, whatever the path
  (also when the compound is in the path) and whatever rules produce the compound: the
  test of the starting materials comes first. The route of a starting material is empty.
\<close>

theorem starting_material_short_circuit:
  assumes "cid \<in> starting_materials d"
  shows "best_cost d cid stack = (0, None)
    \<and> (compound_id d name = Some cid \<longrightarrow> design_route d name = Some [])"
  using assms UNREACHABLE_pos
  by (simp add: best_cost_sm design_route_def collect_steps_sm)

text \<open>
  Propene is a starting material of the source that two reactions produce; it is taken
  here with itself in the path.
\<close>

theorem starting_material_short_circuit_witness:
  "''alkene:C3'' \<in> starting_materials propyl_designer
   \<and> length (rules_producing propyl_designer ''alkene:C3'') = 2
   \<and> best_cost propyl_designer ''alkene:C3'' [''alkene:C3''] = (0, None)
   \<and> compound_id propyl_designer propene = Some ''alkene:C3''
   \<and> design_route propyl_designer propene = Some []"
proof -
  have sm: "''alkene:C3'' \<in> starting_materials propyl_designer"
    by (simp add: propyl_designer_def source_starting_materials_def)
  have rp: "length (rules_producing propyl_designer ''alkene:C3'') = 2"
    by code_simp
  from starting_material_short_circuit [OF sm, of "[''alkene:C3'']" propene]
    compound_id_propene sm rp
  show ?thesis by simp
qed

text \<open>
  C9. \<open>design_route\<close> returns the same value, the empty sequence, for a known target
  that is unreachable and for a starting material, whose cost is 0.
\<close>

theorem empty_route_ambiguous:
  assumes "compound_id d n1 = Some c1" and "UNREACHABLE \<le> fst (best_cost d c1 [])"
    and "compound_id d n2 = Some c2" and "c2 \<in> starting_materials d"
  shows "design_route d n1 = Some [] \<and> design_route d n2 = Some []
    \<and> fst (best_cost d c2 []) = 0"
  using assms UNREACHABLE_pos
  by (simp add: best_cost_sm design_route_def collect_steps_sm)

theorem empty_route_ambiguous_witness:
  "compound_id propene_only_designer propane = Some ''alkane:C3''
   \<and> UNREACHABLE \<le> fst (best_cost propene_only_designer ''alkane:C3'' [])
   \<and> compound_id propene_only_designer propene = Some ''alkene:C3''
   \<and> ''alkene:C3'' \<in> starting_materials propene_only_designer
   \<and> design_route propene_only_designer propane = Some []
   \<and> design_route propene_only_designer propene = Some []"
proof -
  have un: "UNREACHABLE \<le> fst (best_cost propene_only_designer ''alkane:C3'' [])"
    by (simp add: best_cost_propane)
  have sm: "''alkene:C3'' \<in> starting_materials propene_only_designer"
    by (simp add: propene_only_designer_def)
  from empty_route_ambiguous [OF compound_id_propene_only(1) un compound_id_propene_only(2) sm]
    compound_id_propene_only un sm
  show ?thesis by simp
qed

text \<open>
  C6. \<open>design_route\<close> returns \<open>None\<close> exactly when the name is not a key of the registry
  \<^verbatim>\<open>name_to_id\<close>; for a known target whose cost is the unreachable cost it returns the
  empty sequence, a value other than \<open>None\<close>. The functions of the model are total and
  have no error value: the source reads its dictionaries with \<^verbatim>\<open>get\<close> only and indexes
  no sequence.
\<close>

theorem design_route_outcomes:
  "(design_route d name = None \<longleftrightarrow> name \<notin> fst ` set (name_to_id d))
   \<and> (\<forall>cid. compound_id d name = Some cid \<and> UNREACHABLE \<le> fst (best_cost d cid [])
        \<longrightarrow> design_route d name = Some [] \<and> design_route d name \<noteq> None)"
proof -
  have "design_route d name = None \<longleftrightarrow> compound_id d name = None"
    by (auto simp: design_route_def split: option.splits prod.splits)
  then show ?thesis
    by (auto simp: compound_id_def map_of_eq_None_iff design_route_unreachable)
qed

theorem design_route_outcomes_witness:
  "design_route propene_only_designer ''water'' = None
   \<and> ''water'' \<notin> fst ` set (name_to_id propene_only_designer)
   \<and> compound_id propene_only_designer propane = Some ''alkane:C3''
   \<and> UNREACHABLE \<le> fst (best_cost propene_only_designer ''alkane:C3'' [])
   \<and> design_route propene_only_designer propane = Some []"
proof -
  have un: "UNREACHABLE \<le> fst (best_cost propene_only_designer ''alkane:C3'' [])"
    by (simp add: best_cost_propane)
  have unknown: "compound_id propene_only_designer ''water'' = None"
    by code_simp
  then have "''water'' \<notin> fst ` set (name_to_id propene_only_designer)"
    by (simp add: compound_id_def map_of_eq_None_iff)
  with design_route_outcomes [of propene_only_designer "''water''"]
    design_route_outcomes [of propene_only_designer propane]
    compound_id_propene_only(1) un
  show ?thesis by simp
qed

text \<open>
  C10. For a known target that is not a starting material and whose cost with the empty
  path is below the unreachable cost, \<^verbatim>\<open>_collect_steps\<close> returns \<open>True\<close>: the branch
  \<^verbatim>\<open>return False\<close> is taken in none of its calls. \<open>design_route\<close> returns a sequence that
  is not empty and whose last rule produces the target.
\<close>

theorem extraction_never_fails:
  assumes "index_ok d" and "compound_id d name = Some cid"
    and "cid \<notin> starting_materials d" and "fst (best_cost d cid []) < UNREACHABLE"
  shows "fst (collect_steps d cid ({}, []) [])
    \<and> (\<exists>steps. design_route d name = Some steps \<and> steps \<noteq> [] \<and> product (last steps) = cid)"
proof -
  from collect_steps_last [OF assms(1,3,4) dedup_state_init dep_state_init]
  obtain seen ordered rxn where
    c: "collect_steps d cid ({}, []) [] = (True, insert rxn seen, ordered @ [rxn])"
    and p: "product rxn = cid" by auto
  from design_route_reachable [OF assms(2,4)] c
  have "design_route d name = Some (ordered @ [rxn])" by simp
  with c p show ?thesis by simp
qed

theorem extraction_never_fails_witness:
  "index_ok propyl_designer
   \<and> compound_id propyl_designer propyl_propanoate = Some ''ester:C3:C3''
   \<and> ''ester:C3:C3'' \<notin> starting_materials propyl_designer
   \<and> fst (best_cost propyl_designer ''ester:C3:C3'' []) < UNREACHABLE
   \<and> fst (collect_steps propyl_designer ''ester:C3:C3'' ({}, []) [])
   \<and> design_route propyl_designer propyl_propanoate = Some propyl_route
   \<and> product (last propyl_route) = ''ester:C3:C3''"
proof -
  have lt: "fst (best_cost propyl_designer ''ester:C3:C3'' []) < UNREACHABLE"
    by (simp add: best_cost_propyl_propanoate UNREACHABLE_gt_5)
  from extraction_never_fails [OF index_ok_propyl_designer compound_id_propyl_propanoate
      propyl_propanoate_not_starting lt]
    index_ok_propyl_designer compound_id_propyl_propanoate propyl_propanoate_not_starting lt
    design_route_propyl_propanoate
  show ?thesis by auto
qed

text \<open>
  C1, as the code has it. The cost of the search is the length of the post-order
  traversal of the chosen rules, in which a rule that two branches need occurs twice; the
  sequence that \<open>design_route\<close> returns holds each rule of the traversal once. Its length
  is at least 1 and at most the cost, and equals the cost exactly when no rule occurs twice
  in the traversal.
\<close>

theorem route_length_bound:
  assumes "compound_id d name = Some cid" and "cid \<notin> starting_materials d"
    and "fst (best_cost d cid []) < UNREACHABLE"
  shows "\<exists>steps. design_route d name = Some steps
    \<and> steps = emit_once (post_order d cid []) []
    \<and> int (length (post_order d cid [])) = fst (best_cost d cid [])
    \<and> length steps = card (set (post_order d cid []))
    \<and> 1 \<le> length steps \<and> int (length steps) \<le> fst (best_cost d cid [])
    \<and> (int (length steps) = fst (best_cost d cid []) \<longleftrightarrow> distinct (post_order d cid []))"
proof -
  let ?po = "post_order d cid []"
  let ?steps = "emit_once ?po []"
  have c: "collect_steps d cid ({}, []) [] = (True, set ?steps, ?steps)"
    using collect_steps_emit [of "({}, [])" d cid "[]"] assms(3) by simp
  with design_route_reachable [OF assms(1,3)] have dr: "design_route d name = Some ?steps"
    by simp
  have len: "int (length ?po) = fst (best_cost d cid [])"
    by (rule length_post_order) (rule assms(3))
  have card: "length ?steps = card (set ?po)"
    using length_emit_once [of "[]" ?po] by simp
  from assms(2,3) obtain rxn tot where "best_cost d cid [] = (tot, Some rxn)"
    by (rule best_cost_reachable)
  then have "?po \<noteq> []" using assms(2) by (subst post_order.simps) simp
  then have pos: "1 \<le> length ?steps"
    unfolding card by (cases ?po) (auto simp: card_insert_if Suc_le_eq card_gt_0_iff)
  have le: "card (set ?po) \<le> length ?po" by (rule card_length)
  have eq: "card (set ?po) = length ?po \<longleftrightarrow> distinct ?po"
    using card_distinct distinct_card by blast
  show ?thesis
    using dr len card pos le eq by (intro exI [of _ ?steps]) auto
qed

theorem route_length_bound_witness:
  "compound_id propyl_designer propyl_propanoate = Some ''ester:C3:C3''
   \<and> ''ester:C3:C3'' \<notin> starting_materials propyl_designer
   \<and> fst (best_cost propyl_designer ''ester:C3:C3'' []) < UNREACHABLE
   \<and> design_route propyl_designer propyl_propanoate = Some propyl_route
   \<and> length propyl_route = card (set (post_order propyl_designer ''ester:C3:C3'' []))
   \<and> length (post_order propyl_designer ''ester:C3:C3'' []) = 5
   \<and> \<not> distinct (post_order propyl_designer ''ester:C3:C3'' [])"
proof -
  have lt: "fst (best_cost propyl_designer ''ester:C3:C3'' []) < UNREACHABLE"
    by (simp add: best_cost_propyl_propanoate UNREACHABLE_gt_5)
  have len: "length propyl_route = 4" by (simp add: propyl_route_def)
  from route_length_bound [OF compound_id_propyl_propanoate propyl_propanoate_not_starting lt]
    compound_id_propyl_propanoate propyl_propanoate_not_starting lt
    design_route_propyl_propanoate best_cost_propyl_propanoate len
  show ?thesis by auto
qed

text \<open>
  C1, as the claim states it, fails on the route to propyl propanoate: the cost is 5, since
  the rule that makes propanol from propene is counted under the acid and under the
  alcohol, and the route has the 4 rules of \<open>propyl_route\<close>.
\<close>

theorem route_length_counterexample:
  "compound_id propyl_designer propyl_propanoate = Some ''ester:C3:C3''
   \<and> ''ester:C3:C3'' \<notin> starting_materials propyl_designer
   \<and> fst (best_cost propyl_designer ''ester:C3:C3'' []) < UNREACHABLE
   \<and> design_route propyl_designer propyl_propanoate = Some propyl_route
   \<and> int (length propyl_route) \<noteq> fst (best_cost propyl_designer ''ester:C3:C3'' [])"
  using compound_id_propyl_propanoate propyl_propanoate_not_starting
    design_route_propyl_propanoate
  by (simp add: best_cost_propyl_propanoate UNREACHABLE_gt_5 propyl_route_def)

text \<open>
  C2. The cost is 0 for a starting material; otherwise the unreachable cost for a target
  in the path; otherwise the minimum, over the rules producing the target, of 1 plus the sum
  of the costs of the inputs computed with the target appended to the path, where a rule
  with an unreachable input has no total and the minimum starts from the unreachable cost
  \<^verbatim>\<open>10**9\<close>, the value of the running best before the first rule. The rule kept is the
  first in registration order whose total is that minimum, when the minimum is below the
  unreachable cost, and no rule otherwise.
\<close>

theorem best_cost_characterisation:
  "best_cost d target path =
     (if target \<in> starting_materials d then (0, None)
      else if target \<in> set path then (UNREACHABLE, None)
      else let m = Min (set (UNREACHABLE #
                     List.map_filter (rule_cost d target path) (rules_producing d target)))
           in (m, if m < UNREACHABLE
                  then find (\<lambda>rxn. rule_cost d target path rxn = Some m) (rules_producing d target)
                  else None))"
proof (cases "target \<in> starting_materials d \<or> target \<in> set path")
  case True
  then show ?thesis by (subst best_cost.simps) auto
next
  case False
  then have ns: "target \<notin> starting_materials d" "target \<notin> set path" by simp_all
  have g: "rule_total d target path = rule_cost d target path"
    by (rule ext) (rule rule_total_eq)
  let ?m = "fold min (List.map_filter (rule_cost d target path) (rules_producing d target)) UNREACHABLE"
  have le: "?m \<le> UNREACHABLE" by (rule fold_min_le)
  have "best_cost d target path =
      (if ?m < UNREACHABLE
       then (?m, find (\<lambda>r. rule_cost d target path r = Some ?m) (rules_producing d target))
       else (UNREACHABLE, None))"
    unfolding best_cost_rules [OF ns] g
    by (subst rules_loop_closed) (simp add: Let_def)
  with le ns show ?thesis
    unfolding Min_set_fold Let_def by auto
qed

text \<open>
  Chloroethane has two rules of total 1; the first registered is kept.
\<close>

theorem best_cost_characterisation_witness:
  "rules_producing ethyl_designer ''haloalkane:C2'' = chloroethane_rules
   \<and> map (rule_cost ethyl_designer ''haloalkane:C2'' []) chloroethane_rules = [Some 1, Some 1]
   \<and> best_cost ethyl_designer ''haloalkane:C2'' [] = (1, Some (hd chloroethane_rules))
   \<and> best_cost ethyl_designer ''haloalkane:C2'' [''haloalkane:C2''] = (UNREACHABLE, None)
   \<and> best_cost ethyl_designer ''alcohol:C2'' [''alcohol:C2''] = (0, None)"
proof -
  have ns: "''haloalkane:C2'' \<notin> starting_materials ethyl_designer"
    by (simp add: ethyl_designer_def source_starting_materials_def upt_rec fmt_nat.simps)
  have sm: "''alcohol:C2'' \<in> starting_materials ethyl_designer"
    by (simp add: ethyl_designer_def source_starting_materials_def)
  have costs: "List.map_filter (rule_cost ethyl_designer ''haloalkane:C2'' []) chloroethane_rules
      = [1, 1]"
    using rule_cost_chloroethane by (simp add: chloroethane_rules_def map_filter_simps)
  have first: "find (\<lambda>rxn. rule_cost ethyl_designer ''haloalkane:C2'' [] rxn = Some 1)
      chloroethane_rules = Some (hd chloroethane_rules)"
    using rule_cost_chloroethane by (simp add: chloroethane_rules_def)
  have lt: "1 < UNREACHABLE" by (simp add: UNREACHABLE_def)
  from best_cost_characterisation [of ethyl_designer "''haloalkane:C2''" "[]"]
    best_cost_characterisation [of ethyl_designer "''haloalkane:C2''" "[''haloalkane:C2'']"]
    best_cost_characterisation [of ethyl_designer "''alcohol:C2''" "[''alcohol:C2'']"]
    ns sm lt costs first rules_producing_chloroethane rule_cost_chloroethane
  show ?thesis by (simp add: Let_def)
qed

text \<open>
  C5. The search terminates on every designer: \<open>best_cost\<close> is a total function, defined
  by a recursion whose calls form a well-founded relation, and its cost lies between 0 and
  the unreachable cost. The path of every call reached from a call with the empty path has
  no repetition, so its length, the number of calls that are active above it, is at most
  the number of compounds that some rule produces. When every rule producing \<open>a\<close> needs
  \<open>b\<close> and every rule producing \<open>b\<close> needs \<open>a\<close>, and neither is a starting material,
  both are unreachable with every path, and \<open>design_route\<close> returns the empty sequence for
  them.
\<close>

theorem search_terminates:
  "wfP (\<lambda>callee caller. calls d caller callee)
   \<and> (\<forall>t0 t stack. (calls d)\<^sup>*\<^sup>* (t0, []) (t, stack)
        \<longrightarrow> distinct stack \<and> length stack \<le> card (produced d))
   \<and> 0 \<le> fst (best_cost d target path) \<and> fst (best_cost d target path) \<le> UNREACHABLE
   \<and> (\<forall>a b. a \<notin> starting_materials d \<and> b \<notin> starting_materials d
          \<and> (\<forall>rxn\<in>set (rules_producing d a). b \<in> set (reactants rxn))
          \<and> (\<forall>rxn\<in>set (rules_producing d b). a \<in> set (reactants rxn))
        \<longrightarrow> (\<forall>stack. best_cost d a stack = (UNREACHABLE, None)
                    \<and> best_cost d b stack = (UNREACHABLE, None))
            \<and> (\<forall>name. compound_id d name = Some a \<or> compound_id d name = Some b
                  \<longrightarrow> design_route d name = Some []))"
proof (intro conjI allI impI)
  show "wfP (\<lambda>callee caller. calls d caller callee)" by (rule calls_wf)
next
  fix t0 t stack assume "(calls d)\<^sup>*\<^sup>* (t0, []) (t, stack)"
  then show "distinct stack" "length stack \<le> card (produced d)"
    using calls_path calls_depth by blast+
next
  show "0 \<le> fst (best_cost d target path)" "fst (best_cost d target path) \<le> UNREACHABLE"
    using best_cost_range by blast+
next
  fix a b stack
  assume h: "a \<notin> starting_materials d \<and> b \<notin> starting_materials d
          \<and> (\<forall>rxn\<in>set (rules_producing d a). b \<in> set (reactants rxn))
          \<and> (\<forall>rxn\<in>set (rules_producing d b). a \<in> set (reactants rxn))"
  then show "best_cost d a stack = (UNREACHABLE, None)"
    by (intro two_cycle_unreachable [of a d b]) simp_all
  from h show "best_cost d b stack = (UNREACHABLE, None)"
    by (intro two_cycle_unreachable [of b d a]) simp_all
next
  fix a b name
  assume h: "a \<notin> starting_materials d \<and> b \<notin> starting_materials d
          \<and> (\<forall>rxn\<in>set (rules_producing d a). b \<in> set (reactants rxn))
          \<and> (\<forall>rxn\<in>set (rules_producing d b). a \<in> set (reactants rxn))"
    and n: "compound_id d name = Some a \<or> compound_id d name = Some b"
  from h have "best_cost d a [] = (UNREACHABLE, None)"
    by (intro two_cycle_unreachable [of a d b]) simp_all
  moreover from h have "best_cost d b [] = (UNREACHABLE, None)"
    by (intro two_cycle_unreachable [of b d a]) simp_all
  ultimately show "design_route d name = Some []"
    using n by (auto simp: design_route_def)
qed

theorem search_terminates_witness:
  "(calls cycle_designer)\<^sup>*\<^sup>* (''alcohol:C3'', [])
      (''alcohol:C3'', [''alcohol:C3'', ''haloalkane:C3''])
   \<and> length [''alcohol:C3'', ''haloalkane:C3''] \<le> card (produced cycle_designer)
   \<and> ''alcohol:C3'' \<notin> starting_materials cycle_designer
   \<and> ''haloalkane:C3'' \<notin> starting_materials cycle_designer
   \<and> best_cost cycle_designer ''alcohol:C3'' [] = (UNREACHABLE, None)
   \<and> best_cost cycle_designer ''haloalkane:C3'' [] = (UNREACHABLE, None)
   \<and> compound_id cycle_designer propanol = Some ''alcohol:C3''
   \<and> design_route cycle_designer propanol = Some []"
proof -
  have c1: "calls cycle_designer (''alcohol:C3'', []) (''haloalkane:C3'', [] @ [''alcohol:C3''])"
    using calls.intros [of "''alcohol:C3''" cycle_designer "[]"
        "hd (rules_producing cycle_designer ''alcohol:C3'')" "''haloalkane:C3''"]
    by (simp add: cycle_designer_rules cycle_designer_not_starting)
  have c2: "calls cycle_designer (''haloalkane:C3'', [''alcohol:C3''])
      (''alcohol:C3'', [''alcohol:C3''] @ [''haloalkane:C3''])"
    using calls.intros [of "''haloalkane:C3''" cycle_designer "[''alcohol:C3'']"
        "hd (rules_producing cycle_designer ''haloalkane:C3'')" "''alcohol:C3''"]
    by (simp add: cycle_designer_rules cycle_designer_not_starting)
  from c1 c2 have chain: "(calls cycle_designer)\<^sup>*\<^sup>* (''alcohol:C3'', [])
      (''alcohol:C3'', [''alcohol:C3'', ''haloalkane:C3''])"
    by simp
  note st = search_terminates [of cycle_designer "''alcohol:C3''" "[]"]
  from st have depth: "\<forall>t0 t stack. (calls cycle_designer)\<^sup>*\<^sup>* (t0, []) (t, stack)
      \<longrightarrow> distinct stack \<and> length stack \<le> card (produced cycle_designer)"
    by (elim conjE)
  from depth chain
  have len: "length [''alcohol:C3'', ''haloalkane:C3''] \<le> card (produced cycle_designer)"
    by blast
  from st have "\<forall>a b. a \<notin> starting_materials cycle_designer
      \<and> b \<notin> starting_materials cycle_designer
      \<and> (\<forall>rxn\<in>set (rules_producing cycle_designer a). b \<in> set (reactants rxn))
      \<and> (\<forall>rxn\<in>set (rules_producing cycle_designer b). a \<in> set (reactants rxn))
      \<longrightarrow> (\<forall>stack. best_cost cycle_designer a stack = (UNREACHABLE, None)
              \<and> best_cost cycle_designer b stack = (UNREACHABLE, None))
          \<and> (\<forall>name. compound_id cycle_designer name = Some a
                \<or> compound_id cycle_designer name = Some b
              \<longrightarrow> design_route cycle_designer name = Some [])"
    by (elim conjE)
  from this [THEN spec, THEN spec, of "''alcohol:C3''" "''haloalkane:C3''"]
  have cyc: "(\<forall>stack. best_cost cycle_designer ''alcohol:C3'' stack = (UNREACHABLE, None)
        \<and> best_cost cycle_designer ''haloalkane:C3'' stack = (UNREACHABLE, None))
      \<and> (\<forall>name. compound_id cycle_designer name = Some ''alcohol:C3''
            \<or> compound_id cycle_designer name = Some ''haloalkane:C3''
          \<longrightarrow> design_route cycle_designer name = Some [])"
    by (simp add: cycle_designer_rules cycle_designer_not_starting)
  then have "design_route cycle_designer propanol = Some []"
    using compound_id_propanol by blast
  with cyc chain len cycle_designer_not_starting compound_id_propanol
  show ?thesis by blast
qed

text \<open>
  C8. \<open>demo_targets\<close> takes the registered compounds that are not starting materials and
  whose cost is below the unreachable cost, orders the pairs of cost and display name
  ascending, and returns the names of the first \<open>cnt\<close> pairs, for a count that is not
  negative. With exactly one compound of cost 1 and one of cost 2, the first result is the
  compound of cost 1.
\<close>

theorem demo_targets_ranking:
  "(\<exists>ranked. mset ranked = mset (ranking_candidates d) \<and> sorted ranked
      \<and> (0 \<le> cnt \<longrightarrow> demo_targets d cnt = map snd (take (nat cnt) ranked)))
   \<and> (mset (ranking_candidates d) = {#(1, n1), (2, n2)#} \<longrightarrow> demo_targets d 1 = [n1])"
proof
  show "\<exists>ranked. mset ranked = mset (ranking_candidates d) \<and> sorted ranked
      \<and> (0 \<le> cnt \<longrightarrow> demo_targets d cnt = map snd (take (nat cnt) ranked))"
    by (rule exI [of _ "sort (ranking_candidates d)"])
      (simp add: demo_targets_sort slice_to_def)
next
  show "mset (ranking_candidates d) = {#(1, n1), (2, n2)#} \<longrightarrow> demo_targets d 1 = [n1]"
  proof
    assume m: "mset (ranking_candidates d) = {#(1, n1), (2, n2)#}"
    have "sort (ranking_candidates d) = [(1, n1), (2, n2)]"
      by (rule properties_for_sort) (simp_all add: m)
    then show "demo_targets d 1 = [n1]"
      by (simp add: demo_targets_sort slice_to_def)
  qed
qed

text \<open>
  In the part of the knowledge base on three carbon atoms the order by cost and name
  differs from the order of registration and from the order by name: propanol and
  chloropropane both cost 1 and propanol has the smaller name.
\<close>

theorem demo_targets_ranking_witness:
  "mset (ranking_candidates phenol_designer) = {#(1, name_chlorobenzene), (2, name_phenol)#}
   \<and> demo_targets phenol_designer 1 = [name_chlorobenzene]
   \<and> ranking_candidates propyl_designer =
       [(1, chloropropane), (1, propanol), (2, propanal), (3, propanoic_acid),
        (5, propyl_propanoate)]
   \<and> demo_targets propyl_designer 3 = [propanol, chloropropane, propanal]"
proof -
  have m: "mset (ranking_candidates phenol_designer) = {#(1, name_chlorobenzene), (2, name_phenol)#}"
    by (simp add: ranking_candidates_phenol)
  from demo_targets_ranking [of phenol_designer 1 name_chlorobenzene name_phenol] m
  have top1: "demo_targets phenol_designer 1 = [name_chlorobenzene]" by blast
  from demo_targets_ranking [of propyl_designer 3] obtain ranked where
    r: "mset ranked = mset (ranking_candidates propyl_designer)" "sorted ranked"
      "demo_targets propyl_designer 3 = map snd (take (nat 3) ranked)"
    by auto
  have "sort (ranking_candidates propyl_designer) = ranked"
    by (rule properties_for_sort) (simp_all add: r)
  then have "ranked = [(1, propanol), (1, chloropropane), (2, propanal), (3, propanoic_acid),
      (5, propyl_propanoate)]"
    unfolding ranking_candidates_propyl sort_candidates_propyl by (rule sym)
  with r(3) have "demo_targets propyl_designer 3 = [propanol, chloropropane, propanal]"
    by simp
  with m top1 ranking_candidates_propyl show ?thesis by simp
qed

end
